theory Spec2Isabelle
  imports Main
begin

section \<open>The plugin loader of src/plugin/plugin_windows.go\<close>

text \<open>
  The development embeds the Windows plugin loader: the C helper \<open>realpath\<close> with
  the two wrappers \<open>pluginOpen\<close> and \<open>pluginLookup\<close>, and the Go functions
  \<open>open\<close> and \<open>lookup\<close>.

  \<^item> The operating system and the Go runtime are a record of functions
    (\<open>platform\<close>): what \<open>GetFullPathNameA\<close>, \<open>GetLastError\<close>, \<open>stat\<close>,
    \<open>malloc\<close>, \<open>LoadLibrary\<close>, \<open>GetProcAddress\<close> and the runtime's
    \<open>lastmoduleinit\<close> answer. They are taken as fixed during a run.
  \<^item> \<open>open\<close> runs on many goroutines at once. Each call is an activation with
    its own local variables (\<open>frame\<close>) and a program point (\<open>label\<close>); the
    shared state (\<open>loader\<close>) holds the mutex \<open>pluginsMu\<close>, the map
    \<open>plugins\<close>, the \<open>Plugin\<close> objects behind their pointers, and a log of
    the calls that run native code. One \<open>step\<close> is one access to shared state or
    one call out of Go, and the goroutine-local code in between belongs to the step;
    the loop over the symbols, which only asks \<open>GetProcAddress\<close> and fills a local
    map, is one step. Every shared access is ordered by the mutex or by the close of
    the channel, so interleaving the steps is what Go's memory model gives.
  \<^item> A pointer is a natural number; \<open>nil\<close> is \<open>0\<close> for the C pointers and
    handles, and \<open>None\<close> for a missing map entry.
  \<^item> The initializer is code of the plugin. Its call is logged; what it does to the
    loader it does by calling \<open>open\<close>, and such a call is an activation of its own.
  \<^item> A panic ends the activation with the outcome \<open>Panic\<close>; in Go a panic that
    nobody recovers ends the process.
  \<^item> The \<open>fmt.Printf\<close> lines and what \<open>print_error_message\<close> writes to
    \<open>stderr\<close> are left out. \<open>open\<close> never reads \<open>errno\<close>, so its value before
    the call of \<open>realpath\<close> does not matter there.
\<close>

subsection \<open>Strings across the C boundary\<close>

text \<open>A Go string handed to C as a NUL-terminated buffer ends at its first NUL byte.\<close>

definition cstring :: "string \<Rightarrow> string" where
  "cstring s = takeWhile (\<lambda>c. c \<noteq> CHR 0x00) s"

text \<open>\<open>C.GoString\<close> of a \<open>char*\<close>: the empty string for \<open>NULL\<close>.\<close>

definition C_GoString :: "string option \<Rightarrow> string" where
  "C_GoString p = (case p of None \<Rightarrow> [] | Some s \<Rightarrow> cstring s)"

text \<open>
  \<open>pluginOpen\<close> and \<open>pluginLookup\<close> receive \<open>&cErr\<close> and pass it to
  \<open>print_error_message\<close>, which only prints: \<open>cErr\<close> keeps the \<open>nil\<close> it
  was declared with (line 226).
\<close>

definition cErr :: "string option" where
  "cErr = None"

subsection \<open>The platform\<close>

datatype errno = ENOENT | ENOTDIR | EACCES | EIO | EINVAL | ENAMETOOLONG | Errno nat

text \<open>
  The data word of an \<open>interface{}\<close> value: \<open>nil\<close>, an address, or a pointer
  to a variable that holds an address (\<open>unsafe.Pointer(&p)\<close>, the shape of a Go func
  value). The type word is a pointer to a type descriptor, \<open>0\<close> for \<open>nil\<close>.
\<close>

datatype dataword = Nil_word | Addr nat | Ref nat

datatype iface = Iface (itype: nat) (idata: dataword)

text \<open>
  \<open>PATH_MAX\<close> comes from \<open>limits.h\<close> and is a parameter. \<open>GetFullPathNameA w
  path n\<close> is the returned size and what the call leaves in the buffer of length
  \<open>n\<close>; \<open>GetLastError w path\<close> is the thread's last error after that call failed;
  \<open>stat w path\<close> is \<open>None\<close> on success and the \<open>errno\<close> it sets otherwise;
  \<open>malloc w n\<close> tells whether the allocation succeeds. \<open>lastmoduleinit w h\<close> is
  what the runtime reports for the module last loaded, \<open>h\<close>: its plugin path, its
  symbol map in the order the \<open>range\<close> loop visits it, and an error string.
\<close>

record platform =
  PATH_MAX :: nat
  malloc :: "nat \<Rightarrow> bool"
  GetFullPathNameA :: "string \<Rightarrow> nat \<Rightarrow> nat \<times> string"
  GetLastError :: "string \<Rightarrow> nat"
  stat :: "string \<Rightarrow> errno option"
  LoadLibrary :: "string \<Rightarrow> nat"
  GetProcAddress :: "nat \<Rightarrow> string \<Rightarrow> nat"
  lastmoduleinit :: "nat \<Rightarrow> string \<times> (string \<times> iface) list \<times> string"

text \<open>The system error codes of \<open>winerror.h\<close> that \<open>realpath\<close> names.\<close>

definition ERROR_FILE_NOT_FOUND :: nat where
  "ERROR_FILE_NOT_FOUND = 2"

definition ERROR_PATH_NOT_FOUND :: nat where
  "ERROR_PATH_NOT_FOUND = 3"

definition ERROR_ACCESS_DENIED :: nat where
  "ERROR_ACCESS_DENIED = 5"

definition ERROR_INVALID_DRIVE :: nat where
  "ERROR_INVALID_DRIVE = 15"

subsection \<open>realpath (lines 22-143)\<close>

text \<open>The \<open>switch (GetLastError())\<close> of lines 93-110.\<close>

definition convert_error :: "nat \<Rightarrow> errno" where
  "convert_error code =
     (if code = ERROR_FILE_NOT_FOUND then ENOENT
      else if code = ERROR_PATH_NOT_FOUND \<or> code = ERROR_INVALID_DRIVE then ENOTDIR
      else if code = ERROR_ACCESS_DENIED then EACCES
      else EIO)"

text \<open>
  \<open>realpath w path resolved_path e\<close>: \<open>path\<close> is \<open>None\<close> for a \<open>NULL\<close>
  argument, \<open>resolved_path\<close> tells whether the caller passed a buffer, \<open>e\<close> is
  \<open>errno\<close> before the call. The result is the returned pointer (the contents of the
  buffer it points to, \<open>None\<close> for \<open>NULL\<close>) and \<open>errno\<close> after the call.
\<close>

definition realpath :: "platform \<Rightarrow> string option \<Rightarrow> bool \<Rightarrow> errno \<Rightarrow> string option \<times> errno" where
  "realpath w path resolved_path e =
     (case path of
        None \<Rightarrow> (None, EINVAL)
      | Some pth \<Rightarrow>
          if \<not> resolved_path \<and> \<not> malloc w (PATH_MAX w) then (None, EINVAL)
          else
            let (size0, buf0) = GetFullPathNameA w pth (PATH_MAX w);
                (size, return_path, e1) =
                  (if size0 > PATH_MAX w then
                     (if \<not> resolved_path then
                        (if malloc w size0 then
                           (let (new_size, buf1) = GetFullPathNameA w pth size0
                            in if new_size > size0 then (size0, None, ENAMETOOLONG)
                               else (new_size, Some buf1, e))
                         else (size0, None, EINVAL))
                      else (size0, None, ENAMETOOLONG))
                   else (size0, Some buf0, e));
                (return_path2, e2) =
                  (if size = 0 then (None, convert_error (GetLastError w pth))
                   else (return_path, e1))
            in (case return_path2 of
                  None \<Rightarrow> (None, e2)
                | Some b \<Rightarrow>
                    (case stat w b of
                       Some e3 \<Rightarrow> (None, e3)
                     | None \<Rightarrow> (Some b, e2))))"

subsection \<open>The wrappers of the dynamic linker (lines 145-184)\<close>

definition pluginOpen :: "platform \<Rightarrow> string \<Rightarrow> nat" where
  "pluginOpen w path = LoadLibrary w path"

definition pluginLookup :: "platform \<Rightarrow> nat \<Rightarrow> string \<Rightarrow> nat" where
  "pluginLookup w h name = GetProcAddress w h name"

subsection \<open>Plugin objects and lookup (lines 304-309)\<close>

text \<open>
  The struct \<open>Plugin\<close> is declared in plugin.go; the fields are the ones this file
  reads and writes. A channel is \<open>nil\<close>, open, or closed. A \<open>nil\<close> map reads as
  the empty map.
\<close>

datatype chan = Chan_nil | Chan_open | Chan_closed

record Plugin =
  pluginpath :: string
  err :: string
  loaded :: chan
  syms :: "string \<rightharpoonup> iface"

text \<open>
  \<open>p.syms[symName]\<close> is the \<open>nil\<close> interface for a missing key, and
  \<open>s != nil\<close> tests the type word.
\<close>

definition lookup :: "Plugin \<Rightarrow> string \<Rightarrow> string + iface" where
  "lookup p symName =
     (let s = (case syms p symName of None \<Rightarrow> Iface 0 Nil_word | Some v \<Rightarrow> v)
      in if itype s \<noteq> 0 then Inr s
         else Inl (''plugin: symbol '' @ symName @ '' not found in plugin '' @ pluginpath p))"

subsection \<open>The pieces of open that touch no shared state\<close>

text \<open>Every error of \<open>open\<close> starts with \<open>plugin.Open("\<close>, the name, and \<open>"): \<close>.\<close>

definition open_prefix :: "string \<Rightarrow> string" where
  "open_prefix name = ''plugin.Open('' @ [CHR 0x22] @ name @ [CHR 0x22] @ ''): ''"

text \<open>Lines 235-237.\<close>

definition strip_so :: "string \<Rightarrow> string" where
  "strip_so name =
     (if length name > 3 \<and> drop (length name - 3) name = ''.so''
      then take (length name - 3) name else name)"

text \<open>What a call of \<open>open\<close> does: return a plugin, return an error, or panic.\<close>

datatype 'a outcome = Ok 'a | Error string | Panic

text \<open>
  The loop of lines 272-297 over the symbols still to visit, with \<open>updatedSyms\<close> as
  accumulator. \<open>symName[0]\<close> panics on the empty string. \<open>delete(syms, symName)\<close>
  removes the entry being visited from the map the runtime handed over, which is not
  read again.
\<close>

fun materialize :: "platform \<Rightarrow> nat \<Rightarrow> string \<Rightarrow> string \<Rightarrow> (string \<times> iface) list
    \<Rightarrow> (string \<rightharpoonup> iface) \<Rightarrow> (string \<rightharpoonup> iface) outcome" where
  "materialize w h ppath name [] updatedSyms = Ok updatedSyms"
| "materialize w h ppath name ((symName, symv) # rest) updatedSyms =
     (case symName of
        [] \<Rightarrow> Panic
      | c # cs \<Rightarrow>
          let isFunc = (c = CHR ''.'');
              symName' = (if isFunc then cs else symName);
              fullName = ppath @ ''.'' @ symName';
              p = pluginLookup w h (cstring fullName)
          in if p = 0
             then Error (open_prefix name @ ''could not find symbol '' @ symName' @ '': ''
                         @ C_GoString cErr)
             else materialize w h ppath name rest
                    (updatedSyms(symName' \<mapsto> Iface (itype symv) (if isFunc then Ref p else Addr p))))"

subsection \<open>The state of the loader and of one call of open\<close>

text \<open>
  The program points of \<open>open\<close> (lines 205-302). A call that has returned or
  panicked is at \<open>L_done\<close>; an activation that has not been called is at
  \<open>L_idle\<close>.
\<close>

datatype label =
    L_idle
  | L_realpath
  | L_lock
  | L_lookup
  | L_unlock_hit
  | L_errcheck
  | L_wait
  | L_pluginOpen
  | L_unlock_loadfail
  | L_lastmoduleinit
  | L_insert_failed
  | L_unlock_failed
  | L_insert_placeholder
  | L_unlock_placeholder
  | L_initlookup
  | L_initcall
  | L_materialize
  | L_publish
  | L_close
  | L_done

text \<open>
  The local variables of one call, with Go's zero values until they are assigned:
  \<open>name\<close>, \<open>filepath\<close>, \<open>p\<close>, \<open>h\<close>, \<open>pluginpath\<close>, the symbols
  \<open>syms\<close> (written \<open>symtab\<close>, since the field of \<open>Plugin\<close> has the name),
  \<open>errstr\<close>, \<open>initFuncPC\<close>, \<open>updatedSyms\<close>, and what the call returned.
\<close>

record frame =
  pc :: label
  name :: string
  filepath :: string
  p :: nat
  h :: nat
  ppath :: string
  symtab :: "(string \<times> iface) list"
  errstr :: string
  initFuncPC :: nat
  updatedSyms :: "string \<rightharpoonup> iface"
  ret :: "nat outcome"

text \<open>
  The calls that run code of the loaded image: the native load, which runs the image's
  entry point, and the initializer. Each is logged with the activation that made it.
\<close>

datatype native_call = Call_pluginOpen string | Call_initFunc nat

text \<open>
  The shared state. \<open>pluginsMu\<close> is \<open>None\<close> when unlocked and otherwise names
  the activation that locked it. \<open>heap\<close> maps a \<open>*Plugin\<close> to its object, and
  \<open>next_ptr\<close> is the next address \<open>&Plugin{...}\<close> allocates.
\<close>

record loader =
  pluginsMu :: "nat option"
  plugins :: "string \<rightharpoonup> nat"
  heap :: "nat \<Rightarrow> Plugin"
  next_ptr :: nat
  calls :: "(nat \<times> native_call) list"
  threads :: "nat \<Rightarrow> frame"

definition zero_Plugin :: Plugin where
  "zero_Plugin = \<lparr>pluginpath = [], err = [], loaded = Chan_nil, syms = Map.empty\<rparr>"

definition idle_frame :: frame where
  "idle_frame = \<lparr>pc = L_idle, name = [], filepath = [], p = 0, h = 0, ppath = [],
     symtab = [], errstr = [], initFuncPC = 0, updatedSyms = Map.empty, ret = Panic\<rparr>"

text \<open>The process before any call: \<open>plugins\<close> is \<open>nil\<close>, the mutex is unlocked.\<close>

definition init_loader :: loader where
  "init_loader = \<lparr>pluginsMu = None, plugins = Map.empty, heap = (\<lambda>_. zero_Plugin),
     next_ptr = 0, calls = [], threads = (\<lambda>_. idle_frame)\<rparr>"

text \<open>Activation \<open>t\<close> is called with \<open>name\<close>; only an idle activation can be.\<close>

definition call_open :: "nat \<Rightarrow> string \<Rightarrow> loader \<Rightarrow> loader" where
  "call_open t nm s =
     (if pc (threads s t) = L_idle
      then s\<lparr>threads := (threads s)(t := idle_frame\<lparr>pc := L_realpath, name := nm\<rparr>)\<rparr>
      else s)"

definition goto :: "nat \<Rightarrow> frame \<Rightarrow> loader \<Rightarrow> loader" where
  "goto t f s = s\<lparr>threads := (threads s)(t := f)\<rparr>"

definition return :: "nat \<Rightarrow> frame \<Rightarrow> nat outcome \<Rightarrow> loader \<Rightarrow> loader" where
  "return t f r s = goto t (f\<lparr>pc := L_done, ret := r\<rparr>) s"

subsection \<open>One step of open (lines 205-302)\<close>

text \<open>
  \<open>step w t s\<close> is the state after activation \<open>t\<close> has taken its next step, and
  \<open>None\<close> when it cannot take one: it is idle or done, it waits for the mutex, or it
  waits on a channel that is not closed. A receive from a \<open>nil\<close> channel and from an
  open channel nobody sends on both wait; closing a channel that is not open panics.
\<close>

definition step :: "platform \<Rightarrow> nat \<Rightarrow> loader \<Rightarrow> loader option" where
  "step w t s =
     (let f = threads s t in
      case pc f of
        L_idle \<Rightarrow> None
      | L_realpath \<Rightarrow> \<comment> \<open>lines 206-215\<close>
          (case fst (realpath w (Some (cstring (name f))) True EINVAL) of
             None \<Rightarrow> Some (return t f (Error (open_prefix (name f) @ ''realpath failed'')) s)
           | Some cPath \<Rightarrow> Some (goto t (f\<lparr>pc := L_lock, filepath := C_GoString (Some cPath)\<rparr>) s))
      | L_lock \<Rightarrow> \<comment> \<open>line 217\<close>
          (case pluginsMu s of
             Some _ \<Rightarrow> None
           | None \<Rightarrow> Some (goto t (f\<lparr>pc := L_lookup\<rparr>) (s\<lparr>pluginsMu := Some t\<rparr>)))
      | L_lookup \<Rightarrow> \<comment> \<open>line 218\<close>
          (case plugins s (filepath f) of
             Some q \<Rightarrow> Some (goto t (f\<lparr>pc := L_unlock_hit, p := q\<rparr>) s)
           | None \<Rightarrow> Some (goto t (f\<lparr>pc := L_pluginOpen\<rparr>) s))
      | L_unlock_hit \<Rightarrow> \<comment> \<open>line 219\<close>
          Some (goto t (f\<lparr>pc := L_errcheck\<rparr>) (s\<lparr>pluginsMu := None\<rparr>))
      | L_errcheck \<Rightarrow> \<comment> \<open>lines 220-222\<close>
          (if err (heap s (p f)) \<noteq> []
           then Some (return t f (Error (open_prefix (name f) @ err (heap s (p f))
                                         @ '' (previous failure)'')) s)
           else Some (goto t (f\<lparr>pc := L_wait\<rparr>) s))
      | L_wait \<Rightarrow> \<comment> \<open>lines 223-224\<close>
          (case loaded (heap s (p f)) of
             Chan_closed \<Rightarrow> Some (return t f (Ok (p f)) s)
           | _ \<Rightarrow> None)
      | L_pluginOpen \<Rightarrow> \<comment> \<open>lines 226-229\<close>
          (let h' = pluginOpen w (filepath f);
               s' = s\<lparr>calls := calls s @ [(t, Call_pluginOpen (filepath f))]\<rparr>
           in if h' = 0 then Some (goto t (f\<lparr>pc := L_unlock_loadfail, h := h'\<rparr>) s')
              else Some (goto t (f\<lparr>pc := L_lastmoduleinit, h := h'\<rparr>) s'))
      | L_unlock_loadfail \<Rightarrow> \<comment> \<open>lines 230-231\<close>
          Some (return t f (Error (open_prefix (name f) @ C_GoString cErr @ '' error''))
                  (s\<lparr>pluginsMu := None\<rparr>))
      | L_lastmoduleinit \<Rightarrow> \<comment> \<open>lines 235-243\<close>
          (let (pluginpath', syms', errstr') = lastmoduleinit w (h f);
               f' = f\<lparr>name := strip_so (name f), ppath := pluginpath', symtab := syms',
                      errstr := errstr'\<rparr>
           in if errstr' \<noteq> [] then Some (goto t (f'\<lparr>pc := L_insert_failed\<rparr>) s)
              else Some (goto t (f'\<lparr>pc := L_insert_placeholder\<rparr>) s))
      | L_insert_failed \<Rightarrow> \<comment> \<open>lines 244-247\<close>
          (let q = next_ptr s in
           Some (goto t (f\<lparr>pc := L_unlock_failed\<rparr>)
                  (s\<lparr>heap := (heap s)(q := zero_Plugin\<lparr>pluginpath := ppath f, err := errstr f\<rparr>),
                     next_ptr := Suc q,
                     plugins := (plugins s)(filepath f \<mapsto> q)\<rparr>)))
      | L_unlock_failed \<Rightarrow> \<comment> \<open>lines 248-249\<close>
          Some (return t f (Error (open_prefix (name f) @ errstr f)) (s\<lparr>pluginsMu := None\<rparr>))
      | L_insert_placeholder \<Rightarrow> \<comment> \<open>lines 253-257\<close>
          (let q = next_ptr s in
           Some (goto t (f\<lparr>pc := L_unlock_placeholder, p := q\<rparr>)
                  (s\<lparr>heap := (heap s)(q := zero_Plugin\<lparr>pluginpath := ppath f, loaded := Chan_open\<rparr>),
                     next_ptr := Suc q,
                     plugins := (plugins s)(filepath f \<mapsto> q)\<rparr>)))
      | L_unlock_placeholder \<Rightarrow> \<comment> \<open>line 258\<close>
          Some (goto t (f\<lparr>pc := L_initlookup\<rparr>) (s\<lparr>pluginsMu := None\<rparr>))
      | L_initlookup \<Rightarrow> \<comment> \<open>lines 260-265\<close>
          (let a = pluginLookup w (h f) (cstring (ppath f @ ''.init''))
           in if a \<noteq> 0 then Some (goto t (f\<lparr>pc := L_initcall, initFuncPC := a\<rparr>) s)
              else Some (goto t (f\<lparr>pc := L_materialize, initFuncPC := a\<rparr>) s))
      | L_initcall \<Rightarrow> \<comment> \<open>lines 266-268\<close>
          Some (goto t (f\<lparr>pc := L_materialize\<rparr>)
                  (s\<lparr>calls := calls s @ [(t, Call_initFunc (initFuncPC f))]\<rparr>))
      | L_materialize \<Rightarrow> \<comment> \<open>lines 272-297\<close>
          (case materialize w (h f) (ppath f) (name f) (symtab f) Map.empty of
             Ok m \<Rightarrow> Some (goto t (f\<lparr>pc := L_publish, updatedSyms := m\<rparr>) s)
           | Error e \<Rightarrow> Some (return t f (Error e) s)
           | Panic \<Rightarrow> Some (return t f Panic s))
      | L_publish \<Rightarrow> \<comment> \<open>line 298\<close>
          Some (goto t (f\<lparr>pc := L_close\<rparr>)
                  (s\<lparr>heap := (heap s)(p f := (heap s (p f))\<lparr>syms := updatedSyms f\<rparr>)\<rparr>))
      | L_close \<Rightarrow> \<comment> \<open>lines 300-301\<close>
          (case loaded (heap s (p f)) of
             Chan_open \<Rightarrow>
               Some (return t f (Ok (p f))
                       (s\<lparr>heap := (heap s)(p f := (heap s (p f))\<lparr>loaded := Chan_closed\<rparr>)\<rparr>))
           | _ \<Rightarrow> Some (return t f Panic s))
      | L_done \<Rightarrow> None)"

text \<open>
  A schedule is a list of actions: a call of \<open>open\<close> on an idle activation, or a
  step of an activation. A step that cannot be taken leaves the state as it is.
\<close>

datatype action = Call nat string | Step nat

fun act :: "platform \<Rightarrow> action \<Rightarrow> loader \<Rightarrow> loader" where
  "act w (Call t nm) s = call_open t nm s"
| "act w (Step t) s = (case step w t s of None \<Rightarrow> s | Some s' \<Rightarrow> s')"

definition run :: "platform \<Rightarrow> action list \<Rightarrow> loader \<Rightarrow> loader" where
  "run w as s = fold (act w) as s"


subsection \<open>One call of open run alone\<close>

text \<open>
  An upper bound on the steps a call still takes. Every step of \<open>open\<close> moves
  forward in the text of the function: its only loop is inside \<open>materialize\<close>.
\<close>

fun rank :: "label \<Rightarrow> nat" where
  "rank L_idle = 0"
| "rank L_realpath = 12"
| "rank L_lock = 11"
| "rank L_lookup = 10"
| "rank L_unlock_hit = 3"
| "rank L_errcheck = 2"
| "rank L_wait = 1"
| "rank L_pluginOpen = 9"
| "rank L_unlock_loadfail = 1"
| "rank L_lastmoduleinit = 8"
| "rank L_insert_failed = 2"
| "rank L_unlock_failed = 1"
| "rank L_insert_placeholder = 7"
| "rank L_unlock_placeholder = 6"
| "rank L_initlookup = 5"
| "rank L_initcall = 4"
| "rank L_materialize = 3"
| "rank L_publish = 2"
| "rank L_close = 1"
| "rank L_done = 0"

text \<open>
  \<open>drive w t s\<close> lets activation \<open>t\<close> step until it cannot: it has returned or
  panicked (\<open>L_done\<close>), or it waits (\<open>L_lock\<close>, \<open>L_wait\<close>) for something that no
  other activation provides while \<open>t\<close> runs alone.
\<close>

function drive :: "platform \<Rightarrow> nat \<Rightarrow> loader \<Rightarrow> loader" where
  "drive w t s = (case step w t s of None \<Rightarrow> s | Some s' \<Rightarrow> drive w t s')"
  by pat_completeness auto
termination
  by (relation "measure (\<lambda>(w, t, s). rank (pc (threads s t)))")
     (auto simp: step_def goto_def return_def Let_def
           split: label.splits option.splits if_splits chan.splits outcome.splits prod.splits)

declare drive.simps [simp del]

text \<open>A sequential call \<open>open(name)\<close> on the idle activation \<open>t\<close>.\<close>

definition open_plugin :: "platform \<Rightarrow> nat \<Rightarrow> string \<Rightarrow> loader \<Rightarrow> loader" where
  "open_plugin w t nm s = drive w t (call_open t nm s)"

text \<open>The name an entry of the symbol map is published under (lines 274-278).\<close>

definition strip_dot :: "string \<Rightarrow> string" where
  "strip_dot symName = (case symName of [] \<Rightarrow> [] | c # cs \<Rightarrow> if c = CHR ''.'' then cs else symName)"

subsection \<open>Invariants of the interleaved runs\<close>

text \<open>
  The program points between \<open>pluginsMu.Lock()\<close> and the matching \<open>Unlock()\<close>.
\<close>

fun holds_lock :: "label \<Rightarrow> bool" where
  "holds_lock L_lookup = True"
| "holds_lock L_unlock_hit = True"
| "holds_lock L_pluginOpen = True"
| "holds_lock L_unlock_loadfail = True"
| "holds_lock L_lastmoduleinit = True"
| "holds_lock L_insert_failed = True"
| "holds_lock L_unlock_failed = True"
| "holds_lock L_insert_placeholder = True"
| "holds_lock L_unlock_placeholder = True"
| "holds_lock _ = False"

definition mutex_inv :: "loader \<Rightarrow> bool" where
  "mutex_inv s = (\<forall>t. (pluginsMu s = Some t) = holds_lock (pc (threads s t)))"

fun owner :: "label \<Rightarrow> bool" where
  "owner L_unlock_placeholder = True"
| "owner L_initlookup = True"
| "owner L_initcall = True"
| "owner L_materialize = True"
| "owner L_publish = True"
| "owner L_close = True"
| "owner _ = False"

fun missed :: "label \<Rightarrow> bool" where
  "missed L_pluginOpen = True"
| "missed L_unlock_loadfail = True"
| "missed L_lastmoduleinit = True"
| "missed L_insert_failed = True"
| "missed L_insert_placeholder = True"
| "missed _ = False"

fun loading_label :: "label \<Rightarrow> bool" where
  "loading_label L_lastmoduleinit = True"
| "loading_label L_insert_failed = True"
| "loading_label L_insert_placeholder = True"
| "loading_label _ = False"

definition loaded_h :: "platform \<Rightarrow> frame \<Rightarrow> bool" where
  "loaded_h w f = (h f = pluginOpen w (filepath f) \<and> h f \<noteq> 0)"

definition inited :: "platform \<Rightarrow> frame \<Rightarrow> bool" where
  "inited w f = (lastmoduleinit w (h f) = (ppath f, symtab f, errstr f))"

definition own :: "platform \<Rightarrow> (string \<rightharpoonup> nat) \<Rightarrow> (nat \<Rightarrow> Plugin) \<Rightarrow> frame \<Rightarrow> bool" where
  "own w P H f = (P (filepath f) = Some (p f) \<and> loaded_h w f \<and> inited w f \<and> errstr f = []
     \<and> err (H (p f)) = [] \<and> loaded (H (p f)) = Chan_open \<and> pluginpath (H (p f)) = ppath f)"

definition init_resolved :: "platform \<Rightarrow> frame \<Rightarrow> bool" where
  "init_resolved w f = (initFuncPC f = pluginLookup w (h f) (cstring (ppath f @ ''.init'')))"

definition init_called :: "(nat \<times> native_call) list \<Rightarrow> nat \<Rightarrow> frame \<Rightarrow> bool" where
  "init_called C t f = (initFuncPC f \<noteq> 0 \<longrightarrow> (t, Call_initFunc (initFuncPC f)) \<in> set C)"

definition materialized :: "platform \<Rightarrow> frame \<Rightarrow> bool" where
  "materialized w f =
     (materialize w (h f) (ppath f) (name f) (symtab f) Map.empty = Ok (updatedSyms f))"

definition finv :: "platform \<Rightarrow> (string \<rightharpoonup> nat) \<Rightarrow> (nat \<Rightarrow> Plugin) \<Rightarrow> (nat \<times> native_call) list
    \<Rightarrow> nat \<Rightarrow> frame \<Rightarrow> bool" where
  "finv w P H C t f =
     (case pc f of
        L_idle \<Rightarrow> True
      | L_realpath \<Rightarrow> True
      | L_lock \<Rightarrow> True
      | L_lookup \<Rightarrow> True
      | L_unlock_hit \<Rightarrow> P (filepath f) = Some (p f)
      | L_errcheck \<Rightarrow> P (filepath f) = Some (p f)
      | L_wait \<Rightarrow> P (filepath f) = Some (p f) \<and> err (H (p f)) = []
      | L_pluginOpen \<Rightarrow> P (filepath f) = None
      | L_unlock_loadfail \<Rightarrow> P (filepath f) = None \<and> pluginOpen w (filepath f) = 0
      | L_lastmoduleinit \<Rightarrow> P (filepath f) = None \<and> loaded_h w f
      | L_insert_failed \<Rightarrow> P (filepath f) = None \<and> loaded_h w f \<and> inited w f \<and> errstr f \<noteq> []
      | L_unlock_failed \<Rightarrow> True
      | L_insert_placeholder \<Rightarrow> P (filepath f) = None \<and> loaded_h w f \<and> inited w f \<and> errstr f = []
      | L_unlock_placeholder \<Rightarrow> own w P H f \<and> syms (H (p f)) = Map.empty
      | L_initlookup \<Rightarrow> own w P H f \<and> syms (H (p f)) = Map.empty
      | L_initcall \<Rightarrow> own w P H f \<and> syms (H (p f)) = Map.empty \<and> init_resolved w f \<and> initFuncPC f \<noteq> 0
      | L_materialize \<Rightarrow> own w P H f \<and> syms (H (p f)) = Map.empty \<and> init_resolved w f \<and> init_called C t f
      | L_publish \<Rightarrow> own w P H f \<and> syms (H (p f)) = Map.empty \<and> init_resolved w f \<and> init_called C t f
                     \<and> materialized w f
      | L_close \<Rightarrow> own w P H f \<and> syms (H (p f)) = updatedSyms f \<and> init_resolved w f \<and> init_called C t f
                     \<and> materialized w f
      | L_done \<Rightarrow> (\<forall>q. ret f = Ok q \<longrightarrow> P (filepath f) = Some q \<and> loaded (H q) = Chan_closed))"

definition record_inv :: "platform \<Rightarrow> string \<Rightarrow> Plugin \<Rightarrow> bool" where
  "record_inv w fp r =
     (case lastmoduleinit w (pluginOpen w fp) of
        (pp, tbl, es) \<Rightarrow>
          pluginOpen w fp \<noteq> 0 \<and> pluginpath r = pp \<and> err r = es \<and>
          (if es \<noteq> [] then loaded r = Chan_nil \<and> syms r = Map.empty
           else loaded r \<noteq> Chan_nil
                \<and> (syms r = Map.empty \<or> materialize w (pluginOpen w fp) pp [] tbl Map.empty = Ok (syms r))
                \<and> (loaded r = Chan_closed \<longrightarrow>
                      materialize w (pluginOpen w fp) pp [] tbl Map.empty = Ok (syms r))))"

definition registry_inv :: "platform \<Rightarrow> loader \<Rightarrow> bool" where
  "registry_inv w s =
     ((\<forall>fp q. plugins s fp = Some q \<longrightarrow> q < next_ptr s \<and> record_inv w fp (heap s q))
      \<and> (\<forall>fp fp' q. plugins s fp = Some q \<and> plugins s fp' = Some q \<longrightarrow> fp = fp'))"

definition owners_inv :: "loader \<Rightarrow> bool" where
  "owners_inv s =
     (\<forall>t u. owner (pc (threads s t)) \<and> owner (pc (threads s u))
            \<and> p (threads s t) = p (threads s u) \<longrightarrow> t = u)"

definition count_loads :: "string \<Rightarrow> (nat \<times> native_call) list \<Rightarrow> nat" where
  "count_loads fp C = length (filter (\<lambda>c. snd c = Call_pluginOpen fp) C)"

definition loading :: "loader \<Rightarrow> string \<Rightarrow> bool" where
  "loading s fp =
     (\<exists>t. pluginsMu s = Some t \<and> loading_label (pc (threads s t)) \<and> filepath (threads s t) = fp)"

definition log_inv :: "platform \<Rightarrow> loader \<Rightarrow> bool" where
  "log_inv w s =
     (\<forall>fp. pluginOpen w fp \<noteq> 0 \<longrightarrow>
        count_loads fp (calls s) = (if plugins s fp \<noteq> None \<or> loading s fp then 1 else 0))"

definition frames_inv :: "platform \<Rightarrow> loader \<Rightarrow> bool" where
  "frames_inv w s = (\<forall>t. finv w (plugins s) (heap s) (calls s) t (threads s t))"

definition loader_inv :: "platform \<Rightarrow> loader \<Rightarrow> bool" where
  "loader_inv w s = (mutex_inv s \<and> registry_inv w s \<and> owners_inv s \<and> log_inv w s \<and> frames_inv w s)"

subsection \<open>A small platform\<close>

text \<open>
  A platform on which the theorems below are instantiated. Its directory \<open>C:/\<close>
  holds the plugins \<open>math\<close> (a function \<open>Add\<close> and a variable \<open>Pi\<close>),
  \<open>broken\<close> (it declares \<open>X\<close> and a function \<open>Y\<close>, and the image lacks
  \<open>broken.Y\<close>), \<open>stale\<close> (the runtime rejects it), \<open>withinit\<close> (it has an
  initializer) and \<open>geo.so\<close>, and the file \<open>notdll\<close>, which the dynamic linker
  rejects. Nothing else exists; the path of \<open>long\<close> does not fit \<open>PATH_MAX\<close>, and
  \<open>::\<close> names an invalid drive.
\<close>

definition demo_exports :: "nat \<Rightarrow> string \<times> (string \<times> iface) list \<times> string" where
  "demo_exports hh =
     (if hh = 100 then (''math'', [(''.Add'', Iface 7 Nil_word), (''Pi'', Iface 8 Nil_word)], [])
      else if hh = 101 then (''broken'', [(''X'', Iface 9 Nil_word), (''.Y'', Iface 10 Nil_word)], [])
      else if hh = 102 then (''stale'', [], ''plugin was built with a different version of package runtime'')
      else if hh = 103 then (''withinit'', [(''V'', Iface 11 Nil_word)], [])
      else (''geo'', [], []))"

definition demo_symbols :: "nat \<Rightarrow> string \<Rightarrow> nat" where
  "demo_symbols hh sname =
     (if hh = 100 \<and> sname = ''math.Add'' then 500
      else if hh = 100 \<and> sname = ''math.Pi'' then 600
      else if hh = 101 \<and> sname = ''broken.X'' then 700
      else if hh = 103 \<and> sname = ''withinit.init'' then 900
      else if hh = 103 \<and> sname = ''withinit.V'' then 910
      else 0)"

definition demo_files :: "string \<Rightarrow> nat option" where
  "demo_files pth =
     (if pth = ''C:/math'' then Some 100
      else if pth = ''C:/broken'' then Some 101
      else if pth = ''C:/stale'' then Some 102
      else if pth = ''C:/withinit'' then Some 103
      else if pth = ''C:/geo.so'' then Some 104
      else if pth = ''C:/notdll'' then Some 0
      else None)"

definition demo :: platform where
  "demo = \<lparr>PATH_MAX = 260, malloc = (\<lambda>_. True),
     GetFullPathNameA = (\<lambda>pth n. if pth = ''long'' then (261, [])
                                  else if pth = ''::'' then (0, [])
                                  else (length (''C:/'' @ pth), ''C:/'' @ pth)),
     GetLastError = (\<lambda>_. 15),
     stat = (\<lambda>pth. case demo_files pth of None \<Rightarrow> Some ENOENT | Some _ \<Rightarrow> None),
     LoadLibrary = (\<lambda>pth. case demo_files pth of None \<Rightarrow> 0 | Some hh \<Rightarrow> hh),
     GetProcAddress = demo_symbols,
     lastmoduleinit = demo_exports\<rparr>"

text \<open>The call \<open>open("stale")\<close> run to its end.\<close>

definition stale_sched :: "action list" where
  "stale_sched = [Call 0 ''stale'', Step 0, Step 0, Step 0, Step 0, Step 0, Step 0, Step 0]"

text \<open>
  Schedules on that platform: two calls for unrelated paths that meet at the mutex; a
  call of \<open>open("withinit")\<close> up to the call of the initializer; a call of
  \<open>open("math")\<close> that a second call waits for, and the steps that finish it; a call
  of \<open>open("broken")\<close> up to the loop over the symbols; two calls of
  \<open>open("notdll")\<close>.
\<close>

definition contention_sched :: "action list" where
  "contention_sched = [Call 0 ''math'', Call 1 ''withinit'', Step 0, Step 1, Step 0, Step 0, Step 1]"

definition withinit_sched :: "action list" where
  "withinit_sched = [Call 0 ''withinit'', Step 0, Step 0, Step 0, Step 0, Step 0, Step 0, Step 0, Step 0]"

definition wait_sched :: "action list" where
  "wait_sched = [Call 0 ''math'', Call 1 ''math'',
     Step 0, Step 0, Step 0, Step 0, Step 0, Step 0, Step 0,
     Step 1, Step 1, Step 1, Step 1, Step 1, Step 1]"

definition finish_sched :: "action list" where
  "finish_sched = [Step 0, Step 0, Step 0, Step 0]"

definition broken_sched :: "action list" where
  "broken_sched = [Call 0 ''broken'', Step 0, Step 0, Step 0, Step 0, Step 0, Step 0, Step 0, Step 0]"

definition twice_sched :: "action list" where
  "twice_sched = [Call 0 ''notdll'', Call 1 ''notdll'', Step 0, Step 1, Step 0, Step 1,
     Step 0, Step 0, Step 0, Step 1, Step 1, Step 1, Step 1]"

section \<open>The invariants hold in every run\<close>

lemma mutex_inv_step:
  assumes "mutex_inv s" and "step w t s = Some s'"
  shows "mutex_inv s'"
  unfolding mutex_inv_def
proof
  fix u
  have A: "(pluginsMu s = Some t) = holds_lock (pc (threads s t))"
    and B: "(pluginsMu s = Some u) = holds_lock (pc (threads s u))"
    using assms(1) by (simp_all add: mutex_inv_def)
  show "(pluginsMu s' = Some u) = holds_lock (pc (threads s' u))"
    using A B assms(2)
    by (cases "pc (threads s t)")
       (auto simp: step_def goto_def return_def Let_def
         split: option.splits if_splits chan.splits outcome.splits prod.splits)
qed

lemmas step_simps = step_def goto_def return_def Let_def zero_Plugin_def
lemmas step_splits = option.splits if_splits chan.splits outcome.splits prod.splits

lemma finv_calls: "finv w P H C t f \<Longrightarrow> finv w P H (C @ [c]) t f"
  by (cases "pc f") (auto simp: finv_def init_called_def)

lemma finv_insert:
  assumes "finv w P H C t f" and "\<not> missed (pc f)" and "P fp = None"
    and "\<forall>fp' q'. P fp' = Some q' \<longrightarrow> q' < q"
  shows "finv w (P(fp \<mapsto> q)) (H(q := r)) C t f"
  using assms
  by (cases "pc f") (auto simp: finv_def own_def)

lemma finv_syms:
  assumes "finv w P H C t f" and "owner (pc f) \<longrightarrow> p f \<noteq> q"
  shows "finv w P (H(q := (H q)\<lparr>syms := m\<rparr>)) C t f"
  using assms
  by (cases "pc f") (auto simp: finv_def own_def)

lemma finv_close:
  assumes "finv w P H C t f" and "owner (pc f) \<longrightarrow> p f \<noteq> q"
  shows "finv w P (H(q := (H q)\<lparr>loaded := Chan_closed\<rparr>)) C t f"
  using assms
  by (cases "pc f") (auto simp: finv_def own_def)


lemma materialize_name:
  "materialize w hh pp nm tbl m = Ok m' \<Longrightarrow> materialize w hh pp nm' tbl m = Ok m'"
proof (induction tbl arbitrary: m)
  case Nil
  then show ?case by simp
next
  case (Cons e tbl)
  obtain n v where e: "e = (n, v)" by (cases e)
  show ?case
    using Cons.prems Cons.IH
    by (cases n) (auto simp: e Let_def split: if_splits)
qed

lemma frames_inv_self:
  assumes "loader_inv w s" and "step w t s = Some s'"
  shows "finv w (plugins s') (heap s') (calls s') t (threads s' t)"
proof -
  have F: "finv w (plugins s) (heap s) (calls s) t (threads s t)"
    using assms(1) by (simp add: loader_inv_def frames_inv_def)
  have R: "\<forall>fp q. plugins s fp = Some q \<longrightarrow> q < next_ptr s"
    using assms(1) by (simp add: loader_inv_def registry_inv_def)
  show ?thesis
    using F R assms(2)
    by (cases "pc (threads s t)")
       (auto simp: step_simps finv_def own_def loaded_h_def inited_def init_resolved_def
                   init_called_def materialized_def
             split: step_splits)
qed


lemma frames_inv_other:
  assumes "loader_inv w s" and "step w t s = Some s'" and "u \<noteq> t"
  shows "finv w (plugins s') (heap s') (calls s') u (threads s' u)"
proof -
  have Fu: "finv w (plugins s) (heap s) (calls s) u (threads s u)"
    and Ft: "finv w (plugins s) (heap s) (calls s) t (threads s t)"
    using assms(1) by (simp_all add: loader_inv_def frames_inv_def)
  have R: "\<forall>fp q. plugins s fp = Some q \<longrightarrow> q < next_ptr s"
    using assms(1) by (simp add: loader_inv_def registry_inv_def)
  have Mt: "(pluginsMu s = Some t) = holds_lock (pc (threads s t))"
    and Mu: "(pluginsMu s = Some u) = holds_lock (pc (threads s u))"
    using assms(1) by (simp_all add: loader_inv_def mutex_inv_def)
  have O: "owner (pc (threads s t)) \<and> owner (pc (threads s u)) \<longrightarrow> p (threads s t) \<noteq> p (threads s u)"
    using assms(1,3) by (auto simp: loader_inv_def owners_inv_def)
  have U: "threads s' u = threads s u"
    using assms(2,3) by (cases "pc (threads s t)") (auto simp: step_simps split: step_splits)
  have notmissed: "holds_lock (pc (threads s t)) \<Longrightarrow> \<not> missed (pc (threads s u))"
    using Mt Mu assms(3) by (cases "pc (threads s u)") auto
  show ?thesis
  proof (cases "pc (threads s t)")
    case L_pluginOpen
    then have "plugins s' = plugins s \<and> heap s' = heap s
        \<and> calls s' = calls s @ [(t, Call_pluginOpen (filepath (threads s t)))]"
      using assms(2) by (auto simp: step_simps split: step_splits)
    then show ?thesis using finv_calls [OF Fu] U by simp
  next
    case L_initcall
    then have "plugins s' = plugins s \<and> heap s' = heap s
        \<and> calls s' = calls s @ [(t, Call_initFunc (initFuncPC (threads s t)))]"
      using assms(2) by (auto simp: step_simps split: step_splits)
    then show ?thesis using finv_calls [OF Fu] U by simp
  next
    case L_insert_failed
    then have E: "\<exists>r. plugins s' = (plugins s)(filepath (threads s t) \<mapsto> next_ptr s)
        \<and> heap s' = (heap s)(next_ptr s := r) \<and> calls s' = calls s"
      using assms(2) by (auto simp: step_simps split: step_splits)
    have miss: "plugins s (filepath (threads s t)) = None"
      using Ft L_insert_failed by (simp add: finv_def)
    have nm: "\<not> missed (pc (threads s u))"
      using notmissed L_insert_failed by simp
    show ?thesis using E finv_insert [OF Fu nm miss R] U by auto
  next
    case L_insert_placeholder
    then have E: "\<exists>r. plugins s' = (plugins s)(filepath (threads s t) \<mapsto> next_ptr s)
        \<and> heap s' = (heap s)(next_ptr s := r) \<and> calls s' = calls s"
      using assms(2) by (auto simp: step_simps split: step_splits)
    have miss: "plugins s (filepath (threads s t)) = None"
      using Ft L_insert_placeholder by (simp add: finv_def)
    have nm: "\<not> missed (pc (threads s u))"
      using notmissed L_insert_placeholder by simp
    show ?thesis using E finv_insert [OF Fu nm miss R] U by auto
  next
    case L_publish
    then have E: "plugins s' = plugins s \<and> calls s' = calls s
        \<and> heap s' = (heap s)(p (threads s t) := (heap s (p (threads s t)))
              \<lparr>syms := updatedSyms (threads s t)\<rparr>)"
      using assms(2) by (auto simp: step_simps split: step_splits)
    have "owner (pc (threads s u)) \<longrightarrow> p (threads s u) \<noteq> p (threads s t)"
      using O L_publish by auto
    from finv_syms [OF Fu this] show ?thesis using E U by simp
  next
    case L_close
    have Op: "loaded (heap s (p (threads s t))) = Chan_open"
      using Ft L_close by (simp add: finv_def own_def)
    then have E: "plugins s' = plugins s \<and> calls s' = calls s
        \<and> heap s' = (heap s)(p (threads s t) := (heap s (p (threads s t)))
              \<lparr>loaded := Chan_closed\<rparr>)"
      using assms(2) L_close by (auto simp: step_simps split: step_splits)
    have "owner (pc (threads s u)) \<longrightarrow> p (threads s u) \<noteq> p (threads s t)"
      using O L_close by auto
    from finv_close [OF Fu this] show ?thesis using E U by simp
  qed (use Fu U assms(2) in \<open>auto simp: step_simps split: step_splits\<close>)
qed

lemma frames_inv_step:
  assumes "loader_inv w s" and "step w t s = Some s'"
  shows "frames_inv w s'"
  unfolding frames_inv_def
  using frames_inv_self [OF assms] frames_inv_other [OF assms] by metis


lemma step_shared_cases:
  assumes "step w t s = Some s'"
  shows "(plugins s' = plugins s \<and> heap s' = heap s \<and> next_ptr s' = next_ptr s)
       \<or> (pc (threads s t) = L_insert_failed
           \<and> plugins s' = (plugins s)(filepath (threads s t) \<mapsto> next_ptr s)
           \<and> heap s' = (heap s)(next_ptr s := zero_Plugin\<lparr>pluginpath := ppath (threads s t),
                                                          err := errstr (threads s t)\<rparr>)
           \<and> next_ptr s' = Suc (next_ptr s))
       \<or> (pc (threads s t) = L_insert_placeholder
           \<and> plugins s' = (plugins s)(filepath (threads s t) \<mapsto> next_ptr s)
           \<and> heap s' = (heap s)(next_ptr s := zero_Plugin\<lparr>pluginpath := ppath (threads s t),
                                                          loaded := Chan_open\<rparr>)
           \<and> next_ptr s' = Suc (next_ptr s))
       \<or> (pc (threads s t) = L_publish
           \<and> plugins s' = plugins s \<and> next_ptr s' = next_ptr s
           \<and> heap s' = (heap s)(p (threads s t) := (heap s (p (threads s t)))
                 \<lparr>syms := updatedSyms (threads s t)\<rparr>))
       \<or> (pc (threads s t) = L_close \<and> loaded (heap s (p (threads s t))) = Chan_open
           \<and> plugins s' = plugins s \<and> next_ptr s' = next_ptr s
           \<and> heap s' = (heap s)(p (threads s t) := (heap s (p (threads s t)))
                 \<lparr>loaded := Chan_closed\<rparr>))"
  using assms
  by (cases "pc (threads s t)") (auto simp: step_def goto_def return_def Let_def split: step_splits)

lemma registry_inv_step:
  assumes "loader_inv w s" and "step w t s = Some s'"
  shows "registry_inv w s'"
proof -
  have Ft: "finv w (plugins s) (heap s) (calls s) t (threads s t)"
    using assms(1) by (simp add: loader_inv_def frames_inv_def)
  have R1: "\<And>fp q. plugins s fp = Some q \<Longrightarrow> q < next_ptr s"
    and R2: "\<And>fp q. plugins s fp = Some q \<Longrightarrow> record_inv w fp (heap s q)"
    and R3: "\<And>fp fp' q. plugins s fp = Some q \<Longrightarrow> plugins s fp' = Some q \<Longrightarrow> fp = fp'"
    using assms(1) by (auto simp: loader_inv_def registry_inv_def)
  consider
      (same) "plugins s' = plugins s" "heap s' = heap s" "next_ptr s' = next_ptr s"
    | (failed) "pc (threads s t) = L_insert_failed"
        "plugins s' = (plugins s)(filepath (threads s t) \<mapsto> next_ptr s)"
        "heap s' = (heap s)(next_ptr s := zero_Plugin\<lparr>pluginpath := ppath (threads s t),
                                                          err := errstr (threads s t)\<rparr>)"
        "next_ptr s' = Suc (next_ptr s)"
    | (placeholder) "pc (threads s t) = L_insert_placeholder"
        "plugins s' = (plugins s)(filepath (threads s t) \<mapsto> next_ptr s)"
        "heap s' = (heap s)(next_ptr s := zero_Plugin\<lparr>pluginpath := ppath (threads s t),
                                                          loaded := Chan_open\<rparr>)"
        "next_ptr s' = Suc (next_ptr s)"
    | (publish) "pc (threads s t) = L_publish" "plugins s' = plugins s" "next_ptr s' = next_ptr s"
        "heap s' = (heap s)(p (threads s t) := (heap s (p (threads s t)))
                 \<lparr>syms := updatedSyms (threads s t)\<rparr>)"
    | (close) "pc (threads s t) = L_close" "plugins s' = plugins s" "next_ptr s' = next_ptr s"
        "heap s' = (heap s)(p (threads s t) := (heap s (p (threads s t)))
                 \<lparr>loaded := Chan_closed\<rparr>)"
    using step_shared_cases [OF assms(2)] by blast
  then show ?thesis
  proof cases
    case same
    then show ?thesis using assms(1) by (simp add: loader_inv_def registry_inv_def)
  next
    case failed
    have F: "plugins s (filepath (threads s t)) = None" "loaded_h w (threads s t)"
      "inited w (threads s t)" "errstr (threads s t) \<noteq> []"
      using Ft failed(1) by (simp_all add: finv_def)
    have new: "record_inv w (filepath (threads s t)) (heap s' (next_ptr s))"
      using F by (auto simp: record_inv_def failed(3) loaded_h_def inited_def zero_Plugin_def)
    show ?thesis
      unfolding registry_inv_def
    proof (rule conjI; intro allI impI)
      fix fp q assume "plugins s' fp = Some q"
      then show "q < next_ptr s' \<and> record_inv w fp (heap s' q)"
        using new R1 [of fp q] R2 [of fp q]
        by (auto simp: failed(2,3,4) split: if_splits)
    next
      fix fp fp' q assume "plugins s' fp = Some q \<and> plugins s' fp' = Some q"
      then show "fp = fp'"
        using R1 [of fp q] R1 [of fp' q] R3 [of fp q fp']
        by (auto simp: failed(2) split: if_splits)
    qed
  next
    case placeholder
    have F: "plugins s (filepath (threads s t)) = None" "loaded_h w (threads s t)"
      "inited w (threads s t)" "errstr (threads s t) = []"
      using Ft placeholder(1) by (simp_all add: finv_def)
    have new: "record_inv w (filepath (threads s t)) (heap s' (next_ptr s))"
      using F by (auto simp: record_inv_def placeholder(3) loaded_h_def inited_def zero_Plugin_def)
    show ?thesis
      unfolding registry_inv_def
    proof (rule conjI; intro allI impI)
      fix fp q assume "plugins s' fp = Some q"
      then show "q < next_ptr s' \<and> record_inv w fp (heap s' q)"
        using new R1 [of fp q] R2 [of fp q]
        by (auto simp: placeholder(2,3,4) split: if_splits)
    next
      fix fp fp' q assume "plugins s' fp = Some q \<and> plugins s' fp' = Some q"
      then show "fp = fp'"
        using R1 [of fp q] R1 [of fp' q] R3 [of fp q fp']
        by (auto simp: placeholder(2) split: if_splits)
    qed
  next
    case publish
    have F: "own w (plugins s) (heap s) (threads s t)" "materialized w (threads s t)"
      using Ft publish(1) by (simp_all add: finv_def)
    have M: "materialize w (pluginOpen w (filepath (threads s t))) (ppath (threads s t)) []
               (symtab (threads s t)) Map.empty = Ok (updatedSyms (threads s t))"
      using F materialize_name [of w _ _ "name (threads s t)" _ Map.empty _ "[]"]
      by (simp add: materialized_def own_def loaded_h_def)
    show ?thesis
      unfolding registry_inv_def
    proof (rule conjI; intro allI impI)
      fix fp q assume A: "plugins s' fp = Some q"
      show "q < next_ptr s' \<and> record_inv w fp (heap s' q)"
      proof (cases "q = p (threads s t)")
        case True
        then have "fp = filepath (threads s t)"
          using A F(1) R3 [of fp q "filepath (threads s t)"] by (simp add: publish(2) own_def)
        then show ?thesis
          using A F M R1 [of fp q] R2 [of fp q] True
          by (auto simp: publish record_inv_def own_def loaded_h_def inited_def)
      next
        case False
        then show ?thesis using A R1 [of fp q] R2 [of fp q] by (simp add: publish)
      qed
    next
      fix fp fp' q assume "plugins s' fp = Some q \<and> plugins s' fp' = Some q"
      then show "fp = fp'" using R3 [of fp q fp'] by (simp add: publish(2))
    qed
  next
    case close
    have F: "own w (plugins s) (heap s) (threads s t)" "materialized w (threads s t)"
      "syms (heap s (p (threads s t))) = updatedSyms (threads s t)"
      using Ft close(1) by (simp_all add: finv_def)
    have M: "materialize w (pluginOpen w (filepath (threads s t))) (ppath (threads s t)) []
               (symtab (threads s t)) Map.empty = Ok (updatedSyms (threads s t))"
      using F materialize_name [of w _ _ "name (threads s t)" _ Map.empty _ "[]"]
      by (simp add: materialized_def own_def loaded_h_def)
    show ?thesis
      unfolding registry_inv_def
    proof (rule conjI; intro allI impI)
      fix fp q assume A: "plugins s' fp = Some q"
      show "q < next_ptr s' \<and> record_inv w fp (heap s' q)"
      proof (cases "q = p (threads s t)")
        case True
        then have "fp = filepath (threads s t)"
          using A F(1) R3 [of fp q "filepath (threads s t)"] by (simp add: close(2) own_def)
        then show ?thesis
          using A F M R1 [of fp q] R2 [of fp q] True
          by (auto simp: close record_inv_def own_def loaded_h_def inited_def)
      next
        case False
        then show ?thesis using A R1 [of fp q] R2 [of fp q] by (simp add: close)
      qed
    next
      fix fp fp' q assume "plugins s' fp = Some q \<and> plugins s' fp' = Some q"
      then show "fp = fp'" using R3 [of fp q fp'] by (simp add: close(2))
    qed
  qed
qed


lemma step_frame_cases:
  assumes "step w t s = Some s'"
  shows "(\<forall>u. u \<noteq> t \<longrightarrow> threads s' u = threads s u)
       \<and> (owner (pc (threads s' t)) \<longrightarrow>
            (owner (pc (threads s t)) \<and> p (threads s' t) = p (threads s t))
            \<or> (pc (threads s t) = L_insert_placeholder \<and> p (threads s' t) = next_ptr s))"
  using assms
  by (cases "pc (threads s t)") (auto simp: step_def goto_def return_def Let_def split: step_splits)

lemma owners_inv_step:
  assumes "loader_inv w s" and "step w t s = Some s'"
  shows "owners_inv s'"
proof -
  have R1: "\<And>fp q. plugins s fp = Some q \<Longrightarrow> q < next_ptr s"
    using assms(1) by (auto simp: loader_inv_def registry_inv_def)
  have F: "\<And>u. finv w (plugins s) (heap s) (calls s) u (threads s u)"
    using assms(1) by (simp add: loader_inv_def frames_inv_def)
  have bound: "\<And>u. owner (pc (threads s u)) \<Longrightarrow> p (threads s u) < next_ptr s"
  proof -
    fix u assume "owner (pc (threads s u))"
    then have "plugins s (filepath (threads s u)) = Some (p (threads s u))"
      using F [of u] by (cases "pc (threads s u)") (auto simp: finv_def own_def)
    then show "p (threads s u) < next_ptr s" by (rule R1)
  qed
  have O: "\<And>a b. owner (pc (threads s a)) \<Longrightarrow> owner (pc (threads s b))
             \<Longrightarrow> p (threads s a) = p (threads s b) \<Longrightarrow> a = b"
    using assms(1) by (auto simp: loader_inv_def owners_inv_def)
  note S = step_frame_cases [OF assms(2)]
  have key: "a = b" if "a \<noteq> b" "b \<noteq> t" "owner (pc (threads s' a))" "owner (pc (threads s b))"
      "p (threads s' a) = p (threads s b)" for a b
  proof (cases "a = t")
    case True
    from S that(3) True consider
        (old) "owner (pc (threads s t))" "p (threads s' t) = p (threads s t)"
      | (new) "p (threads s' t) = next_ptr s"
      by blast
    then show ?thesis
    proof cases
      case old
      then have "p (threads s t) = p (threads s b)" using that(5) True by simp
      then show ?thesis using O [of t b] old(1) that(4) True by simp
    next
      case new
      then have "p (threads s b) = next_ptr s" using that(5) True by simp
      then show ?thesis using bound [of b] that(4) by simp
    qed
  next
    case False
    then have "threads s' a = threads s a" using S by simp
    then show ?thesis using O [of a b] that by simp
  qed
  show ?thesis
    unfolding owners_inv_def
  proof (intro allI impI)
    fix a b
    assume A: "owner (pc (threads s' a)) \<and> owner (pc (threads s' b))
               \<and> p (threads s' a) = p (threads s' b)"
    show "a = b"
    proof (rule ccontr)
      assume ne: "a \<noteq> b"
      show False
      proof (cases "b = t")
        case True
        then have "a \<noteq> t" using ne by simp
        then have "threads s' a = threads s a" using S by simp
        then have "b = a"
          using key [of b a] A ne \<open>a \<noteq> t\<close> by simp
        then show False using ne by simp
      next
        case False
        then have "threads s' b = threads s b" using S by simp
        then have "a = b" using key [of a b] A ne False by simp
        then show False using ne by simp
      qed
    qed
  qed
qed


lemma log_inv_step:
  assumes "loader_inv w s" and "step w t s = Some s'"
  shows "log_inv w s'"
  unfolding log_inv_def
proof (intro allI impI)
  fix fp assume nz: "pluginOpen w fp \<noteq> 0"
  have L: "count_loads fp (calls s) = (if plugins s fp \<noteq> None \<or> loading s fp then 1 else 0)"
    using assms(1) nz by (simp add: loader_inv_def log_inv_def)
  have M: "\<And>u. (pluginsMu s = Some u) = holds_lock (pc (threads s u))"
    using assms(1) by (simp add: loader_inv_def mutex_inv_def)
  have Ft: "finv w (plugins s) (heap s) (calls s) t (threads s t)"
    using assms(1) by (simp add: loader_inv_def frames_inv_def)
  have hold: "holds_lock (pc (threads s t)) \<Longrightarrow> loading s fp =
      (loading_label (pc (threads s t)) \<and> filepath (threads s t) = fp)"
    using M [of t] by (auto simp: loading_def)
  have nohold: "\<not> holds_lock (pc (threads s t)) \<Longrightarrow> pluginsMu s' = pluginsMu s
      \<Longrightarrow> loading s' fp = loading s fp"
  proof -
    assume a: "\<not> holds_lock (pc (threads s t))" "pluginsMu s' = pluginsMu s"
    have "\<And>u. pluginsMu s = Some u \<Longrightarrow> threads s' u = threads s u"
      using step_frame_cases [OF assms(2)] M a(1) by metis
    then show ?thesis using a(2) by (auto simp: loading_def)
  qed
  have hold': "pluginsMu s' = Some t \<Longrightarrow> loading s' fp =
      (loading_label (pc (threads s' t)) \<and> filepath (threads s' t) = fp)"
    by (auto simp: loading_def)
  have free': "pluginsMu s' = None \<Longrightarrow> \<not> loading s' fp"
    by (auto simp: loading_def)
  show "count_loads fp (calls s') = (if plugins s' fp \<noteq> None \<or> loading s' fp then 1 else 0)"
  proof (cases "pc (threads s t)")
    case L_lock
    then have E: "pluginsMu s = None" "pluginsMu s' = Some t" "calls s' = calls s"
      "plugins s' = plugins s" "pc (threads s' t) = L_lookup"
      using assms(2) by (auto simp: step_simps split: step_splits)
    have "\<not> loading s fp" using E(1) by (auto simp: loading_def)
    then show ?thesis using L hold' [OF E(2)] E by simp
  qed (use L M [of t] Ft assms(2) nz hold nohold hold' free' in
        \<open>auto simp: step_simps count_loads_def finv_def loaded_h_def split: step_splits\<close>)
qed

lemma finv_start: "finv w P H C t (idle_frame\<lparr>pc := L_realpath, name := nm\<rparr>)"
  by (simp add: finv_def)

lemma loader_inv_call:
  assumes "loader_inv w s"
  shows "loader_inv w (call_open t nm s)"
proof (cases "pc (threads s t) = L_idle")
  case False
  then show ?thesis using assms by (simp add: call_open_def)
next
  case True
  define s' where "s' = s\<lparr>threads := (threads s)(t := idle_frame\<lparr>pc := L_realpath, name := nm\<rparr>)\<rparr>"
  have sh: "pluginsMu s' = pluginsMu s" "plugins s' = plugins s" "heap s' = heap s"
    "next_ptr s' = next_ptr s" "calls s' = calls s"
    by (simp_all add: s'_def)
  have th: "threads s' u = (if u = t then idle_frame\<lparr>pc := L_realpath, name := nm\<rparr> else threads s u)" for u
    by (simp add: s'_def)
  have hl: "holds_lock (pc (threads s' u)) = holds_lock (pc (threads s u))" for u
    using True by (simp add: th)
  have ow: "owner (pc (threads s' u)) = owner (pc (threads s u))" for u
    using True by (simp add: th)
  have ll: "loading_label (pc (threads s' u)) = loading_label (pc (threads s u))" for u
    using True by (simp add: th)
  have m: "mutex_inv s'"
    using assms by (simp add: loader_inv_def mutex_inv_def hl sh)
  have r: "registry_inv w s'"
    using assms by (simp add: loader_inv_def registry_inv_def sh)
  have o: "owners_inv s'"
    unfolding owners_inv_def
  proof (intro allI impI)
    fix a b
    assume A: "owner (pc (threads s' a)) \<and> owner (pc (threads s' b))
               \<and> p (threads s' a) = p (threads s' b)"
    then have "a \<noteq> t" "b \<noteq> t" using True by (auto simp: th split: if_splits)
    then show "a = b" using A assms by (simp add: th loader_inv_def owners_inv_def)
  qed
  have "loading s' fp = loading s fp" for fp
  proof -
    have "(loading_label (pc (threads s' u)) \<and> filepath (threads s' u) = fp)
        = (loading_label (pc (threads s u)) \<and> filepath (threads s u) = fp)" for u
      using True by (simp add: th)
    then show ?thesis by (simp add: loading_def sh)
  qed
  then have l: "log_inv w s'"
    using assms by (simp add: loader_inv_def log_inv_def sh)
  have f: "frames_inv w s'"
    using assms finv_start by (simp add: loader_inv_def frames_inv_def sh th)
  have "call_open t nm s = s'"
    using True by (simp add: call_open_def s'_def)
  then show ?thesis
    using m r o l f by (simp add: loader_inv_def)
qed

lemma loader_inv_step:
  assumes "loader_inv w s" and "step w t s = Some s'"
  shows "loader_inv w s'"
  unfolding loader_inv_def
  using mutex_inv_step [OF _ assms(2)] assms(1) registry_inv_step [OF assms]
    owners_inv_step [OF assms] log_inv_step [OF assms] frames_inv_step [OF assms]
  by (simp add: loader_inv_def)

lemma loader_inv_init: "loader_inv w init_loader"
  by (simp add: loader_inv_def mutex_inv_def registry_inv_def owners_inv_def log_inv_def
        frames_inv_def init_loader_def idle_frame_def finv_def loading_def count_loads_def)

lemma loader_inv_act: "loader_inv w s \<Longrightarrow> loader_inv w (act w a s)"
  by (cases a) (auto simp: loader_inv_call loader_inv_step split: option.splits)

lemma loader_inv_fold: "loader_inv w s \<Longrightarrow> loader_inv w (fold (act w) sched s)"
  by (induction sched arbitrary: s) (simp_all add: loader_inv_act)

lemma loader_inv_run: "loader_inv w (run w sched init_loader)"
  by (simp add: run_def loader_inv_fold loader_inv_init)

section \<open>A call run alone\<close>

lemma drive_step: "step w t s = Some s' \<Longrightarrow> drive w t s = drive w t s'"
  by (subst drive.simps) simp

lemma drive_stop: "step w t s = None \<Longrightarrow> drive w t s = s"
  by (subst drive.simps) simp

lemma realpath_errno: "fst (realpath w pth r e) = fst (realpath w pth r e')"
  by (auto simp: realpath_def Let_def split: option.splits prod.splits if_splits)

text \<open>The entry of a call up to the map lookup.\<close>

lemma open_to_lookup:
  assumes "pc (threads s t) = L_idle" and "pluginsMu s = None"
    and "fst (realpath w (Some (cstring nm)) True e) = Some cPath"
  shows "open_plugin w t nm s =
     drive w t (s\<lparr>pluginsMu := Some t,
                 threads := (threads s)(t := idle_frame\<lparr>pc := L_lookup, name := nm,
                                filepath := cstring cPath\<rparr>)\<rparr>)"
proof -
  have r: "fst (realpath w (Some (cstring nm)) True EINVAL) = Some cPath"
    using assms(3) realpath_errno [of w _ True EINVAL e] by simp
  let ?s1 = "call_open t nm s"
  have 1: "step w t ?s1 = Some (s\<lparr>threads := (threads s)(t := idle_frame\<lparr>pc := L_lock, name := nm,
                                filepath := cstring cPath\<rparr>)\<rparr>)" (is "_ = Some ?s2")
    using assms(1) r by (simp add: call_open_def step_simps idle_frame_def C_GoString_def)
  have 2: "step w t ?s2 = Some (s\<lparr>pluginsMu := Some t,
                 threads := (threads s)(t := idle_frame\<lparr>pc := L_lookup, name := nm,
                                filepath := cstring cPath\<rparr>)\<rparr>)"
    using assms(2) by (simp add: step_simps idle_frame_def)
  show ?thesis
    unfolding open_plugin_def using drive_step [OF 1] drive_step [OF 2] by simp
qed


lemmas frame_simps = idle_frame_def C_GoString_def cErr_def

lemma open_load_rejected:
  assumes "pc (threads s t) = L_idle" and "pluginsMu s = None"
    and "fst (realpath w (Some (cstring nm)) True e) = Some cPath"
    and "plugins s (cstring cPath) = None" and "pluginOpen w (cstring cPath) = 0"
  shows "open_plugin w t nm s =
     s\<lparr>pluginsMu := None,
       calls := calls s @ [(t, Call_pluginOpen (cstring cPath))],
       threads := (threads s)(t := idle_frame\<lparr>pc := L_done, name := nm,
          filepath := cstring cPath, ret := Error (open_prefix nm @ '' error'')\<rparr>)\<rparr>"
  unfolding open_to_lookup [OF assms(1,2,3)]
  using assms(4,5)
  by (simp add: drive.simps step_simps frame_simps)

lemma open_previous_failure:
  assumes "pc (threads s t) = L_idle" and "pluginsMu s = None"
    and "fst (realpath w (Some (cstring nm)) True e) = Some cPath"
    and "plugins s (cstring cPath) = Some q" and "err (heap s q) \<noteq> []"
  shows "open_plugin w t nm s =
     s\<lparr>pluginsMu := None,
       threads := (threads s)(t := idle_frame\<lparr>pc := L_done, name := nm,
          filepath := cstring cPath, p := q,
          ret := Error (open_prefix nm @ err (heap s q) @ '' (previous failure)'')\<rparr>)\<rparr>"
  unfolding open_to_lookup [OF assms(1,2,3)]
  using assms(4,5)
  by (simp add: drive.simps step_simps frame_simps)

lemma open_realpath_failed:
  assumes "pc (threads s t) = L_idle"
    and "fst (realpath w (Some (cstring nm)) True e) = None"
  shows "open_plugin w t nm s =
     s\<lparr>threads := (threads s)(t := idle_frame\<lparr>pc := L_done, name := nm,
          ret := Error (open_prefix nm @ ''realpath failed'')\<rparr>)\<rparr>"
proof -
  have r: "fst (realpath w (Some (cstring nm)) True EINVAL) = None"
    using assms(2) realpath_errno [of w _ True EINVAL e] by simp
  show ?thesis
    using assms(1) r
    by (simp add: open_plugin_def call_open_def drive.simps step_simps frame_simps)
qed

lemma open_loaded:
  assumes "pc (threads s t) = L_idle" and "pluginsMu s = None"
    and "fst (realpath w (Some (cstring nm)) True e) = Some cPath"
    and "plugins s (cstring cPath) = None" and "pluginOpen w (cstring cPath) = hh" and "hh \<noteq> 0"
    and "lastmoduleinit w hh = (pp, tbl, [])"
    and "materialize w hh pp (strip_so nm) tbl Map.empty = Ok m"
  shows "open_plugin w t nm s =
     s\<lparr>pluginsMu := None,
       plugins := (plugins s)(cstring cPath \<mapsto> next_ptr s),
       heap := (heap s)(next_ptr s :=
          \<lparr>pluginpath = pp, err = [], loaded = Chan_closed, syms = m\<rparr>),
       next_ptr := Suc (next_ptr s),
       calls := calls s @ [(t, Call_pluginOpen (cstring cPath))]
          @ (if pluginLookup w hh (cstring (pp @ ''.init'')) \<noteq> 0
             then [(t, Call_initFunc (pluginLookup w hh (cstring (pp @ ''.init''))))] else []),
       threads := (threads s)(t := idle_frame\<lparr>pc := L_done, name := strip_so nm,
          filepath := cstring cPath, p := next_ptr s, h := hh, ppath := pp, symtab := tbl,
          initFuncPC := pluginLookup w hh (cstring (pp @ ''.init'')),
          updatedSyms := m, ret := Ok (next_ptr s)\<rparr>)\<rparr>"
  unfolding open_to_lookup [OF assms(1,2,3)]
  using assms(4-)
  by (simp add: drive.simps step_simps frame_simps)

lemmas demo_simps = demo_def demo_files_def demo_symbols_def demo_exports_def realpath_def
  cstring_def pluginOpen_def pluginLookup_def init_loader_def idle_frame_def

section \<open>What a call returns when it runs alone\<close>

text \<open>
  C10. When \<open>pluginOpen\<close> returns the zero handle, \<open>open\<close> returns an error
  to its caller and inserts no record for the canonical path: the map, the objects and
  the mutex are as before, and only the native load is logged. A later \<open>open\<close> of a
  name that resolves to the same path calls \<open>pluginOpen\<close> again and gets the load
  error again, not a cached "previous failure".
\<close>

theorem load_rejected_not_cached:
  assumes "pc (threads s t) = L_idle" and "pc (threads s u) = L_idle" and "t \<noteq> u"
    and "pluginsMu s = None"
    and "fst (realpath w (Some (cstring nm)) True e) = Some cPath"
    and "fst (realpath w (Some (cstring nm')) True e') = Some cPath"
    and "plugins s (cstring cPath) = None"
    and "pluginOpen w (cstring cPath) = 0"
  shows "pc (threads (open_plugin w t nm s) t) = L_done
       \<and> ret (threads (open_plugin w t nm s) t) = Error (open_prefix nm @ '' error'')
       \<and> plugins (open_plugin w t nm s) = plugins s
       \<and> heap (open_plugin w t nm s) = heap s
       \<and> pluginsMu (open_plugin w t nm s) = None
       \<and> calls (open_plugin w t nm s) = calls s @ [(t, Call_pluginOpen (cstring cPath))]
       \<and> calls (open_plugin w u nm' (open_plugin w t nm s))
           = calls s @ [(t, Call_pluginOpen (cstring cPath)), (u, Call_pluginOpen (cstring cPath))]
       \<and> ret (threads (open_plugin w u nm' (open_plugin w t nm s)) u)
           = Error (open_prefix nm' @ '' error'')
       \<and> plugins (open_plugin w u nm' (open_plugin w t nm s)) = plugins s"
proof -
  let ?s1 = "open_plugin w t nm s"
  note first = open_load_rejected [OF assms(1,4,5,7,8)]
  have a: "pc (threads ?s1 u) = L_idle" "pluginsMu ?s1 = None" "plugins ?s1 (cstring cPath) = None"
    using assms(2,3,7) by (simp_all add: first)
  note second = open_load_rejected [OF a(1,2) assms(6) a(3) assms(8)]
  show ?thesis
    unfolding second unfolding first by simp
qed

theorem load_rejected_not_cached_witness:
  "calls (open_plugin demo 1 ''notdll'' (open_plugin demo 0 ''notdll'' init_loader))
     = [(0, Call_pluginOpen ''C:/notdll''), (1, Call_pluginOpen ''C:/notdll'')]
   \<and> ret (threads (open_plugin demo 1 ''notdll'' (open_plugin demo 0 ''notdll'' init_loader)) 1)
     = Error (open_prefix ''notdll'' @ '' error'')
   \<and> plugins (open_plugin demo 1 ''notdll'' (open_plugin demo 0 ''notdll'' init_loader)) = Map.empty"
  using load_rejected_not_cached [of init_loader 0 1 demo "''notdll''" EINVAL "''C:/notdll''"
          "''notdll''" EINVAL]
  by (simp add: demo_simps)

lemma record_stable_step:
  assumes "loader_inv w s" and "step w t s = Some s'" and "plugins s fp = Some q"
  shows "plugins s' fp = Some q \<and> err (heap s' q) = err (heap s q)
       \<and> pluginpath (heap s' q) = pluginpath (heap s q)"
proof -
  have Ft: "finv w (plugins s) (heap s) (calls s) t (threads s t)"
    using assms(1) by (simp add: loader_inv_def frames_inv_def)
  have R1: "q < next_ptr s"
    using assms(1,3) by (auto simp: loader_inv_def registry_inv_def)
  from step_shared_cases [OF assms(2)] show ?thesis
  proof (elim disjE conjE)
    assume "pc (threads s t) = L_insert_failed"
      and E: "plugins s' = (plugins s)(filepath (threads s t) \<mapsto> next_ptr s)"
        "heap s' = (heap s)(next_ptr s := zero_Plugin\<lparr>pluginpath := ppath (threads s t),
                                                          err := errstr (threads s t)\<rparr>)"
    then have "plugins s (filepath (threads s t)) = None" using Ft by (simp add: finv_def)
    then show ?thesis using assms(3) R1 E by auto
  next
    assume "pc (threads s t) = L_insert_placeholder"
      and E: "plugins s' = (plugins s)(filepath (threads s t) \<mapsto> next_ptr s)"
        "heap s' = (heap s)(next_ptr s := zero_Plugin\<lparr>pluginpath := ppath (threads s t),
                                                          loaded := Chan_open\<rparr>)"
    then have "plugins s (filepath (threads s t)) = None" using Ft by (simp add: finv_def)
    then show ?thesis using assms(3) R1 E by auto
  qed (use assms(3) in auto)
qed

lemma record_stable_act:
  assumes "loader_inv w s" and "plugins s fp = Some q"
  shows "plugins (act w a s) fp = Some q \<and> err (heap (act w a s) q) = err (heap s q)
       \<and> pluginpath (heap (act w a s) q) = pluginpath (heap s q)"
proof (cases a)
  case (Call t nm)
  then show ?thesis using assms(2) by (simp add: call_open_def)
next
  case (Step t)
  then show ?thesis
    using assms(2) record_stable_step [OF assms(1) _ assms(2)]
    by (cases "step w t s") auto
qed

lemma record_stable_run:
  assumes "loader_inv w s" and "plugins s fp = Some q"
  shows "plugins (run w sched s) fp = Some q \<and> err (heap (run w sched s) q) = err (heap s q)
       \<and> pluginpath (heap (run w sched s) q) = pluginpath (heap s q)"
  using assms
proof (induction sched arbitrary: s)
  case Nil
  then show ?case by (simp add: run_def)
next
  case (Cons a sched)
  have 1: "loader_inv w (act w a s)" using Cons.prems(1) by (rule loader_inv_act)
  note 2 = record_stable_act [OF Cons.prems, of a]
  have "run w (a # sched) s = run w sched (act w a s)" by (simp add: run_def)
  then show ?case using Cons.IH [OF 1] 2 by simp
qed

text \<open>
  C4. In any state a run can reach, when the record of a canonical path is Failed (its
  \<open>err\<close> is not empty), a call of \<open>open\<close> with a name that resolves to the path
  returns \<open>plugin.Open("name"): \<close> followed by the cached \<open>err\<close> and
  \<open> (previous failure)\<close>. The call logs no native call (the load is not retried)
  and leaves the map and the objects as they are. The state is terminal: whatever
  happens later, the path keeps its record and the record keeps its \<open>err\<close>.
\<close>

theorem failed_load_is_cached:
  assumes "s = run w sched init_loader"
    and "pc (threads s t) = L_idle" and "pluginsMu s = None"
    and "fst (realpath w (Some (cstring nm)) True e) = Some cPath"
    and "plugins s (cstring cPath) = Some q" and "err (heap s q) \<noteq> []"
  shows "pc (threads (open_plugin w t nm s) t) = L_done
       \<and> ret (threads (open_plugin w t nm s) t)
           = Error (open_prefix nm @ err (heap s q) @ '' (previous failure)'')
       \<and> calls (open_plugin w t nm s) = calls s
       \<and> plugins (open_plugin w t nm s) = plugins s
       \<and> heap (open_plugin w t nm s) = heap s
       \<and> plugins (run w later s) (cstring cPath) = Some q
       \<and> err (heap (run w later s) q) = err (heap s q)"
proof -
  have "loader_inv w s" using assms(1) loader_inv_run by simp
  from record_stable_run [OF this assms(5), of later] show ?thesis
    unfolding open_previous_failure [OF assms(2-6)] by simp
qed

lemma stale_run:
  "run demo stale_sched init_loader =
     \<lparr>pluginsMu = None, plugins = [''C:/stale'' \<mapsto> 0],
      heap = (\<lambda>_. zero_Plugin)(0 := \<lparr>pluginpath = ''stale'',
         err = ''plugin was built with a different version of package runtime'',
         loaded = Chan_nil, syms = Map.empty\<rparr>),
      next_ptr = 1, calls = [(0, Call_pluginOpen ''C:/stale'')],
      threads = (\<lambda>_. idle_frame)(0 := \<lparr>pc = L_done, name = ''stale'', filepath = ''C:/stale'',
         p = 0, h = 102, ppath = ''stale'', symtab = [],
         errstr = ''plugin was built with a different version of package runtime'',
         initFuncPC = 0, updatedSyms = Map.empty,
         ret = Error (open_prefix ''stale'' @ ''plugin was built with a different version of package runtime'')\<rparr>)\<rparr>"
  by (simp add: stale_sched_def run_def call_open_def step_simps demo_simps C_GoString_def strip_so_def)

theorem failed_load_is_cached_witness:
  "ret (threads (open_plugin demo 1 ''stale'' (run demo stale_sched init_loader)) 1)
     = Error (open_prefix ''stale''
         @ ''plugin was built with a different version of package runtime (previous failure)'')
   \<and> calls (open_plugin demo 1 ''stale'' (run demo stale_sched init_loader))
     = [(0, Call_pluginOpen ''C:/stale'')]"
  using failed_load_is_cached [of "run demo stale_sched init_loader" demo stale_sched 1
          "''stale''" EINVAL "''C:/stale''" 0 "[]"]
  by (simp add: stale_run) (simp add: demo_simps)

text \<open>
  C9, as amended. When \<open>GetFullPathNameA\<close> returns \<open>0\<close>, \<open>realpath\<close> returns
  \<open>NULL\<close> with \<open>errno\<close> translated from \<open>GetLastError\<close>: file-not-found gives
  \<open>ENOENT\<close>, path-not-found and invalid-drive give \<open>ENOTDIR\<close>, access-denied gives
  \<open>EACCES\<close>, every other code gives \<open>EIO\<close>. When the full path does not fit
  \<open>PATH_MAX\<close> it returns \<open>NULL\<close> with \<open>ENAMETOOLONG\<close>, and when \<open>stat\<close>
  fails on the full path it returns \<open>NULL\<close> with the \<open>errno\<close> that \<open>stat\<close> set.
  Whenever \<open>realpath\<close> returns \<open>NULL\<close>, \<open>open\<close> returns
  \<open>plugin.Open("name"): realpath failed\<close>, which does not carry the class, and
  touches neither the mutex, the map, the objects nor the native loader.
\<close>

theorem resolution_failure:
  "(fst (GetFullPathNameA w pth (PATH_MAX w)) = 0 \<longrightarrow>
      realpath w (Some pth) True e = (None, convert_error (GetLastError w pth)))
   \<and> convert_error ERROR_FILE_NOT_FOUND = ENOENT
   \<and> convert_error ERROR_PATH_NOT_FOUND = ENOTDIR
   \<and> convert_error ERROR_INVALID_DRIVE = ENOTDIR
   \<and> convert_error ERROR_ACCESS_DENIED = EACCES
   \<and> (c \<noteq> ERROR_FILE_NOT_FOUND \<and> c \<noteq> ERROR_PATH_NOT_FOUND \<and> c \<noteq> ERROR_INVALID_DRIVE
        \<and> c \<noteq> ERROR_ACCESS_DENIED \<longrightarrow> convert_error c = EIO)
   \<and> (fst (GetFullPathNameA w pth (PATH_MAX w)) > PATH_MAX w \<longrightarrow>
        realpath w (Some pth) True e = (None, ENAMETOOLONG))
   \<and> (GetFullPathNameA w pth (PATH_MAX w) = (n, buf) \<and> 0 < n \<and> n \<le> PATH_MAX w
        \<and> stat w buf = Some e3 \<longrightarrow> realpath w (Some pth) True e = (None, e3))
   \<and> (pc (threads s t) = L_idle \<and> fst (realpath w (Some (cstring nm)) True e) = None \<longrightarrow>
        pc (threads (open_plugin w t nm s) t) = L_done
        \<and> ret (threads (open_plugin w t nm s) t) = Error (open_prefix nm @ ''realpath failed'')
        \<and> pluginsMu (open_plugin w t nm s) = pluginsMu s
        \<and> plugins (open_plugin w t nm s) = plugins s
        \<and> heap (open_plugin w t nm s) = heap s
        \<and> calls (open_plugin w t nm s) = calls s)"
proof (intro conjI impI)
  show "realpath w (Some pth) True e = (None, convert_error (GetLastError w pth))"
    if "fst (GetFullPathNameA w pth (PATH_MAX w)) = 0"
    using that by (cases "GetFullPathNameA w pth (PATH_MAX w)") (simp add: realpath_def)
  show "realpath w (Some pth) True e = (None, ENAMETOOLONG)"
    if "fst (GetFullPathNameA w pth (PATH_MAX w)) > PATH_MAX w"
    using that by (cases "GetFullPathNameA w pth (PATH_MAX w)") (simp add: realpath_def)
  show "realpath w (Some pth) True e = (None, e3)"
    if "GetFullPathNameA w pth (PATH_MAX w) = (n, buf) \<and> 0 < n \<and> n \<le> PATH_MAX w
        \<and> stat w buf = Some e3"
    using that by (simp add: realpath_def)
  show "convert_error c = EIO"
    if "c \<noteq> ERROR_FILE_NOT_FOUND \<and> c \<noteq> ERROR_PATH_NOT_FOUND \<and> c \<noteq> ERROR_INVALID_DRIVE
        \<and> c \<noteq> ERROR_ACCESS_DENIED"
    using that by (simp add: convert_error_def)
next
  assume a: "pc (threads s t) = L_idle \<and> fst (realpath w (Some (cstring nm)) True e) = None"
  then have o: "open_plugin w t nm s =
     s\<lparr>threads := (threads s)(t := idle_frame\<lparr>pc := L_done, name := nm,
          ret := Error (open_prefix nm @ ''realpath failed'')\<rparr>)\<rparr>"
    using open_realpath_failed [of s t w nm e] by simp
  show "pc (threads (open_plugin w t nm s) t) = L_done"
    and "ret (threads (open_plugin w t nm s) t) = Error (open_prefix nm @ ''realpath failed'')"
    and "pluginsMu (open_plugin w t nm s) = pluginsMu s"
    and "plugins (open_plugin w t nm s) = plugins s"
    and "heap (open_plugin w t nm s) = heap s"
    and "calls (open_plugin w t nm s) = calls s"
    by (simp_all add: o)
qed (simp_all add: convert_error_def ERROR_FILE_NOT_FOUND_def ERROR_PATH_NOT_FOUND_def
       ERROR_INVALID_DRIVE_def ERROR_ACCESS_DENIED_def)

theorem resolution_failure_witness:
  "realpath demo (Some ''::'') True EINVAL = (None, ENOTDIR)
   \<and> realpath demo (Some ''absent'') True EINVAL = (None, ENOENT)
   \<and> ret (threads (open_plugin demo 0 ''absent'' init_loader) 0)
       = Error (open_prefix ''absent'' @ ''realpath failed'')
   \<and> calls (open_plugin demo 0 ''absent'' init_loader) = []"
  using resolution_failure [of demo "''::''" EINVAL 7 260 "[]" EIO init_loader 0 "''absent''"]
    resolution_failure [of demo "''absent''" EINVAL 7 9 "''C:/absent''" ENOENT init_loader 0 "''absent''"]
  by (simp add: demo_def demo_files_def cstring_def init_loader_def idle_frame_def
        convert_error_def ERROR_FILE_NOT_FOUND_def ERROR_PATH_NOT_FOUND_def
        ERROR_INVALID_DRIVE_def ERROR_ACCESS_DENIED_def)

theorem resolution_class_counterexample:
  "realpath demo (Some (cstring ''long'')) True EINVAL = (None, ENAMETOOLONG)
   \<and> ENAMETOOLONG \<noteq> ENOENT \<and> ENAMETOOLONG \<noteq> ENOTDIR \<and> ENAMETOOLONG \<noteq> EACCES
   \<and> ENAMETOOLONG \<noteq> EIO
   \<and> ret (threads (open_plugin demo 0 ''long'' init_loader) 0)
       = Error (open_prefix ''long'' @ ''realpath failed'')
   \<and> realpath demo (Some (cstring ''::'')) True EINVAL = (None, ENOTDIR)
   \<and> ret (threads (open_plugin demo 0 ''::'' init_loader) 0)
       = Error (open_prefix ''::'' @ ''realpath failed'')"
proof -
  have l: "realpath demo (Some (cstring ''long'')) True EINVAL = (None, ENAMETOOLONG)"
    and d: "realpath demo (Some (cstring ''::'')) True EINVAL = (None, ENOTDIR)"
    by (simp_all add: demo_def realpath_def cstring_def convert_error_def
          ERROR_FILE_NOT_FOUND_def ERROR_PATH_NOT_FOUND_def ERROR_INVALID_DRIVE_def)
  have i: "pc (threads init_loader 0) = L_idle"
    by (simp add: init_loader_def idle_frame_def)
  have "ret (threads (open_plugin demo 0 ''long'' init_loader) 0)
       = Error (open_prefix ''long'' @ ''realpath failed'')"
    using l by (simp add: open_realpath_failed [OF i, of demo _ EINVAL])
  moreover have "ret (threads (open_plugin demo 0 ''::'' init_loader) 0)
       = Error (open_prefix ''::'' @ ''realpath failed'')"
    using d by (simp add: open_realpath_failed [OF i, of demo _ EINVAL])
  ultimately show ?thesis using l d by simp
qed

text \<open>
  C8, as amended. For a non-empty reference \<open>r\<close>, the name \<open>open\<close> derives from
  \<open>r\<close> followed by \<open>.so\<close> is \<open>r\<close>, and it derives \<open>r\<close> from \<open>r\<close> itself
  unless \<open>r\<close> is longer than three bytes and ends in \<open>.so\<close>. The derived name is
  used in the later error messages only: the identifier that prefixes the initializer
  and the symbols is the plugin path that \<open>lastmoduleinit\<close> reports. The path is
  resolved from the reference as the caller wrote it, so a reference without the
  extension fails with \<open>realpath failed\<close> when no file of that name exists.
\<close>

theorem strip_so_identifier:
  "(r \<noteq> [] \<longrightarrow> strip_so (r @ ''.so'') = r)
   \<and> (length r \<le> 3 \<or> drop (length r - 3) r \<noteq> ''.so'' \<longrightarrow> strip_so r = r)
   \<and> (pc (threads s t) = L_lastmoduleinit \<longrightarrow>
        (\<exists>s'. step w t s = Some s'
           \<and> name (threads s' t) = strip_so (name (threads s t))
           \<and> ppath (threads s' t) = fst (lastmoduleinit w (h (threads s t)))))
   \<and> (pc (threads s t) = L_idle \<and> fst (realpath w (Some (cstring r)) True e) = None \<longrightarrow>
        ret (threads (open_plugin w t r s) t) = Error (open_prefix r @ ''realpath failed''))"
proof (intro conjI impI)
  show "strip_so (r @ ''.so'') = r" if "r \<noteq> []"
    using that by (simp add: strip_so_def)
  show "strip_so r = r" if "length r \<le> 3 \<or> drop (length r - 3) r \<noteq> ''.so''"
    using that by (auto simp: strip_so_def)
  show "\<exists>s'. step w t s = Some s'
           \<and> name (threads s' t) = strip_so (name (threads s t))
           \<and> ppath (threads s' t) = fst (lastmoduleinit w (h (threads s t)))"
    if "pc (threads s t) = L_lastmoduleinit"
    using that by (auto simp: step_simps split: prod.splits)
  show "ret (threads (open_plugin w t r s) t) = Error (open_prefix r @ ''realpath failed'')"
    if "pc (threads s t) = L_idle \<and> fst (realpath w (Some (cstring r)) True e) = None"
    using that open_realpath_failed [of s t w r e] by simp
qed

lemma geo_so_open:
  "open_plugin demo 0 ''geo.so'' init_loader =
     init_loader\<lparr>pluginsMu := None,
       plugins := (plugins init_loader)(''C:/geo.so'' \<mapsto> 0),
       heap := (heap init_loader)(0 := \<lparr>pluginpath = ''geo'', err = [], loaded = Chan_closed,
                                          syms = Map.empty\<rparr>),
       next_ptr := 1,
       calls := [(0, Call_pluginOpen ''C:/geo.so'')],
       threads := (threads init_loader)(0 := idle_frame\<lparr>pc := L_done, name := ''geo'',
          filepath := ''C:/geo.so'', p := 0, h := 104, ppath := ''geo'', symtab := [],
          initFuncPC := 0, updatedSyms := Map.empty, ret := Ok 0\<rparr>)\<rparr>"
  by (subst open_loaded [of init_loader 0 demo "''geo.so''" EINVAL "''C:/geo.so''" 104 "''geo''"
          "[]" Map.empty])
     (simp_all add: demo_simps strip_so_def)

theorem strip_so_identifier_witness:
  "strip_so (''geo'' @ ''.so'') = ''geo'' \<and> strip_so ''geo'' = ''geo''
   \<and> ret (threads (open_plugin demo 0 ''geo'' init_loader) 0)
       = Error (open_prefix ''geo'' @ ''realpath failed'')"
  using strip_so_identifier [of "''geo''" init_loader 0 demo EINVAL]
  by (simp add: demo_simps)

theorem omitted_extension_counterexample:
  "ret (threads (open_plugin demo 0 ''geo.so'' init_loader) 0) = Ok 0
   \<and> ppath (threads (open_plugin demo 0 ''geo.so'' init_loader) 0) = ''geo''
   \<and> ret (threads (open_plugin demo 0 ''geo'' init_loader) 0)
       = Error (open_prefix ''geo'' @ ''realpath failed'')
   \<and> strip_so (''lib.so'' @ ''.so'') \<noteq> strip_so ''lib.so''
   \<and> strip_so ([] @ ''.so'') \<noteq> strip_so []"
proof -
  have i: "pc (threads init_loader 0) = L_idle"
    by (simp add: init_loader_def idle_frame_def)
  have "fst (realpath demo (Some (cstring ''geo'')) True EINVAL) = None"
    by (simp add: demo_simps)
  from open_realpath_failed [OF i this]
  have "ret (threads (open_plugin demo 0 ''geo'' init_loader) 0)
       = Error (open_prefix ''geo'' @ ''realpath failed'')"
    by simp
  then show ?thesis
    by (simp add: geo_so_open strip_so_def)
qed

text \<open>
  C7. \<open>open("math")\<close> on a path that has no record yet, where the runtime reports
  the plugin path \<open>math\<close> and the symbols \<open>.Add\<close> (a function) and \<open>Pi\<close> in
  either order, the image has no \<open>math.init\<close>, and \<open>math.Add\<close> and
  \<open>math.Pi\<close> resolve: the call returns the new plugin,
  \<open>lookup(p, "Add")\<close> is the symbol's interface value with a pointer to a variable
  that holds the address of \<open>math.Add\<close> (a func value), \<open>lookup(p, "Pi")\<close> holds the
  address of \<open>math.Pi\<close> itself, and \<open>lookup(p, "Missing")\<close> fails with an error that
  names \<open>Missing\<close> and the plugin path \<open>math\<close>.
\<close>

theorem math_scenario:
  assumes "pc (threads s t) = L_idle" and "pluginsMu s = None"
    and "fst (realpath w (Some (cstring ''math'')) True e) = Some cPath"
    and "plugins s (cstring cPath) = None"
    and "pluginOpen w (cstring cPath) = hh" and "hh \<noteq> 0"
    and "lastmoduleinit w hh = (''math'', tbl, [])"
    and "tbl = [(''.Add'', Iface tyAdd d1), (''Pi'', Iface tyPi d2)]
         \<or> tbl = [(''Pi'', Iface tyPi d2), (''.Add'', Iface tyAdd d1)]"
    and "tyAdd \<noteq> 0" and "tyPi \<noteq> 0"
    and "pluginLookup w hh ''math.init'' = 0"
    and "pluginLookup w hh ''math.Add'' = aAdd" and "aAdd \<noteq> 0"
    and "pluginLookup w hh ''math.Pi'' = aPi" and "aPi \<noteq> 0"
  shows "pc (threads (open_plugin w t ''math'' s) t) = L_done
       \<and> ret (threads (open_plugin w t ''math'' s) t) = Ok (next_ptr s)
       \<and> plugins (open_plugin w t ''math'' s) (cstring cPath) = Some (next_ptr s)
       \<and> loaded (heap (open_plugin w t ''math'' s) (next_ptr s)) = Chan_closed
       \<and> lookup (heap (open_plugin w t ''math'' s) (next_ptr s)) ''Add''
           = Inr (Iface tyAdd (Ref aAdd))
       \<and> lookup (heap (open_plugin w t ''math'' s) (next_ptr s)) ''Pi''
           = Inr (Iface tyPi (Addr aPi))
       \<and> lookup (heap (open_plugin w t ''math'' s) (next_ptr s)) ''Missing''
           = Inl ''plugin: symbol Missing not found in plugin math''
       \<and> calls (open_plugin w t ''math'' s) = calls s @ [(t, Call_pluginOpen (cstring cPath))]"
proof -
  define m :: "string \<rightharpoonup> iface"
    where "m = [''Add'' \<mapsto> Iface tyAdd (Ref aAdd), ''Pi'' \<mapsto> Iface tyPi (Addr aPi)]"
  have mat: "materialize w hh ''math'' (strip_so ''math'') tbl Map.empty = Ok m"
    using assms(8)
  proof
    assume "tbl = [(''.Add'', Iface tyAdd d1), (''Pi'', Iface tyPi d2)]"
    then show ?thesis
      using assms(12-15) by (simp add: m_def cstring_def)
  next
    assume "tbl = [(''Pi'', Iface tyPi d2), (''.Add'', Iface tyAdd d1)]"
    then show ?thesis
      using assms(12-15) by (simp add: m_def cstring_def fun_upd_twist)
  qed
  have init: "pluginLookup w hh (cstring (''math'' @ ''.init'')) = 0"
    using assms(11) by (simp add: cstring_def)
  note o = open_loaded [OF assms(1-7) mat]
  show ?thesis
    unfolding o using init assms(9,10)
    by (simp add: lookup_def m_def)
qed

theorem math_scenario_witness:
  "ret (threads (open_plugin demo 0 ''math'' init_loader) 0) = Ok 0
   \<and> lookup (heap (open_plugin demo 0 ''math'' init_loader) 0) ''Add'' = Inr (Iface 7 (Ref 500))
   \<and> lookup (heap (open_plugin demo 0 ''math'' init_loader) 0) ''Pi'' = Inr (Iface 8 (Addr 600))
   \<and> lookup (heap (open_plugin demo 0 ''math'' init_loader) 0) ''Missing''
       = Inl ''plugin: symbol Missing not found in plugin math''"
  using math_scenario [of init_loader 0 demo EINVAL "''C:/math''" 100
          "[(''.Add'', Iface 7 Nil_word), (''Pi'', Iface 8 Nil_word)]" 7 Nil_word 8 Nil_word 500 600]
  by (simp add: demo_simps)

section \<open>Properties of all interleavings\<close>

lemma run_frame:
  "finv w (plugins (run w sched init_loader)) (heap (run w sched init_loader))
     (calls (run w sched init_loader)) t (threads (run w sched init_loader) t)"
  using loader_inv_run [of w sched] by (simp add: loader_inv_def frames_inv_def)

lemma run_record:
  "plugins (run w sched init_loader) fp = Some q
   \<Longrightarrow> record_inv w fp (heap (run w sched init_loader) q)"
  using loader_inv_run [of w sched] by (simp add: loader_inv_def registry_inv_def)

lemma run_mutex:
  "(pluginsMu (run w sched init_loader) = Some t)
     = holds_lock (pc (threads (run w sched init_loader) t))"
  using loader_inv_run [of w sched] by (simp add: loader_inv_def mutex_inv_def)

lemma materialize_Cons:
  "materialize w hh pp nm ((c # cs, v) # tbl) m =
     (if pluginLookup w hh (cstring (pp @ ''.'' @ strip_dot (c # cs))) = 0
      then Error (open_prefix nm @ ''could not find symbol '' @ strip_dot (c # cs) @ '': '')
      else materialize w hh pp nm tbl
             (m(strip_dot (c # cs) \<mapsto> Iface (itype v)
                  (if c = CHR ''.''
                   then Ref (pluginLookup w hh (cstring (pp @ ''.'' @ strip_dot (c # cs))))
                   else Addr (pluginLookup w hh (cstring (pp @ ''.'' @ strip_dot (c # cs))))))))"
  by (simp add: strip_dot_def Let_def C_GoString_def cErr_def)

lemma materialize_dom:
  "materialize w hh pp nm tbl m = Ok m'
   \<Longrightarrow> dom m \<subseteq> dom m' \<and> (\<forall>(n, v) \<in> set tbl. strip_dot n \<in> dom m')"
proof (induction tbl arbitrary: m)
  case Nil
  then show ?case by simp
next
  case (Cons e tbl)
  obtain n v where e: "e = (n, v)" by (cases e)
  show ?case
  proof (cases n)
    case Nil
    then show ?thesis using Cons.prems by (simp add: e)
  next
    case c: (Cons c cs)
    define x where "x = Iface (itype v)
                  (if c = CHR ''.''
                   then Ref (pluginLookup w hh (cstring (pp @ ''.'' @ strip_dot (c # cs))))
                   else Addr (pluginLookup w hh (cstring (pp @ ''.'' @ strip_dot (c # cs)))))"
    have rec: "materialize w hh pp nm tbl (m(strip_dot n \<mapsto> x)) = Ok m'"
      using Cons.prems unfolding e c materialize_Cons x_def by (simp split: if_splits)
    have IH: "dom (m(strip_dot n \<mapsto> x)) \<subseteq> dom m'
              \<and> (\<forall>(n, v) \<in> set tbl. strip_dot n \<in> dom m')"
      by (rule Cons.IH [OF rec])
    then have "dom m \<subseteq> dom m'" and "strip_dot n \<in> dom m'" by auto
    then show ?thesis using IH by (simp add: e)
  qed
qed

lemma materialize_missing:
  assumes "(n0, v0) \<in> set tbl"
    and "pluginLookup w hh (cstring (pp @ ''.'' @ strip_dot n0)) = 0"
  shows "materialize w hh pp nm tbl m \<noteq> Ok m'"
  using assms(1)
proof (induction tbl arbitrary: m)
  case Nil
  then show ?case by simp
next
  case (Cons e tbl)
  obtain n v where e: "e = (n, v)" by (cases e)
  show ?case
  proof (cases n)
    case Nil
    then show ?thesis by (simp add: e)
  next
    case c: (Cons c cs)
    show ?thesis
    proof (cases "pluginLookup w hh (cstring (pp @ ''.'' @ strip_dot n)) = 0")
      case True
      then show ?thesis unfolding e c materialize_Cons by simp
    next
      case False
      then have "(n0, v0) \<noteq> e" using assms(2) e by auto
      then have "(n0, v0) \<in> set tbl" using Cons.prems by simp
      from Cons.IH [OF this] show ?thesis using False unfolding e c materialize_Cons by simp
    qed
  qed
qed

lemma materialize_error:
  assumes "(n0, v0) \<in> set tbl"
    and "pluginLookup w hh (cstring (pp @ ''.'' @ strip_dot n0)) = 0"
    and "\<forall>(n, v) \<in> set tbl. n \<noteq> []"
  shows "\<exists>n v. (n, v) \<in> set tbl \<and> pluginLookup w hh (cstring (pp @ ''.'' @ strip_dot n)) = 0
           \<and> materialize w hh pp nm tbl m
               = Error (open_prefix nm @ ''could not find symbol '' @ strip_dot n @ '': '')"
  using assms(1,3)
proof (induction tbl arbitrary: m)
  case Nil
  then show ?case by simp
next
  case (Cons e tbl)
  obtain n v where e: "e = (n, v)" by (cases e)
  then obtain c cs where c: "n = c # cs" using Cons.prems(2) by (cases n) auto
  show ?case
  proof (cases "pluginLookup w hh (cstring (pp @ ''.'' @ strip_dot n)) = 0")
    case True
    then have "materialize w hh pp nm (e # tbl) m
        = Error (open_prefix nm @ ''could not find symbol '' @ strip_dot n @ '': '')"
      unfolding e c materialize_Cons by simp
    then show ?thesis using True e by auto
  next
    case False
    then have "(n0, v0) \<noteq> e" using assms(2) e by auto
    then have in_tl: "(n0, v0) \<in> set tbl" using Cons.prems(1) by simp
    have ne: "\<forall>(n, v) \<in> set tbl. n \<noteq> []" using Cons.prems(2) by simp
    obtain m1 where m1: "materialize w hh pp nm (e # tbl) m = materialize w hh pp nm tbl m1"
      using False unfolding e c materialize_Cons by simp
    from Cons.IH [OF in_tl ne, of m1] obtain n1 v1 where
      1: "(n1, v1) \<in> set tbl" "pluginLookup w hh (cstring (pp @ ''.'' @ strip_dot n1)) = 0"
         "materialize w hh pp nm tbl m1
            = Error (open_prefix nm @ ''could not find symbol '' @ strip_dot n1 @ '': '')"
      by blast
    then show ?thesis using m1 by auto
  qed
qed

lemmas run_simps = run_def call_open_def step_simps demo_simps C_GoString_def strip_so_def

text \<open>
  C5, as amended. In every state a run can reach, an activation holds \<open>pluginsMu\<close>
  exactly from the map lookup to the unlock that follows it: across the lookup, the
  native load \<open>pluginOpen\<close>, \<open>lastmoduleinit\<close> and the insert of the record. It
  does not hold the mutex while it resolves or calls the initializer, while it
  materializes and publishes the symbols and closes the channel, while it reads
  \<open>p.err\<close>, or while it waits on the channel of another load.
\<close>

theorem lock_discipline:
  assumes "s = run w sched init_loader" and "l = pc (threads s t)"
  shows "((pluginsMu s = Some t) = holds_lock l)
       \<and> (l = L_lookup \<or> l = L_pluginOpen \<or> l = L_lastmoduleinit \<or> l = L_insert_failed
            \<or> l = L_insert_placeholder \<longrightarrow> pluginsMu s = Some t)
       \<and> (l = L_initlookup \<or> l = L_initcall \<or> l = L_materialize \<or> l = L_publish
            \<or> l = L_close \<or> l = L_errcheck \<or> l = L_wait \<longrightarrow> pluginsMu s \<noteq> Some t)
       \<and> (l = L_initlookup \<or> l = L_initcall \<or> l = L_materialize \<or> l = L_publish
            \<or> l = L_close \<longrightarrow> step w t s \<noteq> None)
       \<and> (l = L_lock \<longrightarrow> (step w t s = None) = (pluginsMu s \<noteq> None))"
proof -
  have m: "(pluginsMu s = Some t) = holds_lock l"
    unfolding assms by (rule run_mutex)
  have go: "l = L_initlookup \<or> l = L_initcall \<or> l = L_materialize \<or> l = L_publish
            \<or> l = L_close \<longrightarrow> step w t s \<noteq> None"
    using assms(2) by (auto simp: step_def Let_def split: outcome.splits chan.splits)
  have wait: "l = L_lock \<longrightarrow> (step w t s = None) = (pluginsMu s \<noteq> None)"
    using assms(2) by (auto simp: step_def Let_def split: option.splits)
  show ?thesis using m go wait by auto
qed

lemma withinit_at_initcall:
  "pc (threads (run demo withinit_sched init_loader) 0) = L_initcall"
  by (simp add: withinit_sched_def run_simps)

theorem lock_discipline_witness:
  "pc (threads (run demo withinit_sched init_loader) 0) = L_initcall
   \<and> pluginsMu (run demo withinit_sched init_loader) \<noteq> Some 0
   \<and> step demo 0 (run demo withinit_sched init_loader) \<noteq> None"
  using lock_discipline [OF refl refl, of demo withinit_sched 0] withinit_at_initcall by simp

theorem lock_held_across_load_counterexample:
  "pc (threads (run demo contention_sched init_loader) 0) = L_pluginOpen
   \<and> pluginsMu (run demo contention_sched init_loader) = Some 0
   \<and> filepath (threads (run demo contention_sched init_loader) 0) = ''C:/math''
   \<and> pc (threads (run demo contention_sched init_loader) 1) = L_lock
   \<and> filepath (threads (run demo contention_sched init_loader) 1) = ''C:/withinit''
   \<and> step demo 1 (run demo contention_sched init_loader) = None
   \<and> calls (run demo (contention_sched @ [Step 0]) init_loader) = [(0, Call_pluginOpen ''C:/math'')]
   \<and> pluginsMu (run demo (contention_sched @ [Step 0]) init_loader) = Some 0
   \<and> step demo 1 (run demo (contention_sched @ [Step 0]) init_loader) = None"
  by (simp add: contention_sched_def run_simps)

text \<open>
  C6. In every state a run can reach: when an activation is about to resolve the export
  \<open>pluginpath.init\<close> or to call it, its placeholder is already the record of its
  path in \<open>plugins\<close>, and that record is Pending (no error, channel open, no
  symbols). The initializer is called only when the export resolved, without
  arguments, by the activation itself, and the call is logged before the activation
  goes on to the symbols. Up to the store of \<open>p.syms\<close> the record has no symbols
  and its channel is open; when the symbols are about to be stored and when the channel
  is about to be closed, the call of a present initializer is in the log.
\<close>

theorem initializer_order:
  assumes "s = run w sched init_loader" and "f = threads s t"
  shows "(pc f = L_initlookup \<or> pc f = L_initcall \<or> pc f = L_materialize \<or> pc f = L_publish \<longrightarrow>
            plugins s (filepath f) = Some (p f) \<and> h f = pluginOpen w (filepath f)
            \<and> pluginpath (heap s (p f)) = ppath f \<and> err (heap s (p f)) = []
            \<and> loaded (heap s (p f)) = Chan_open \<and> syms (heap s (p f)) = Map.empty)
       \<and> (pc f = L_initlookup \<longrightarrow>
            step w t s =
              (if pluginLookup w (h f) (cstring (ppath f @ ''.init'')) \<noteq> 0
               then Some (goto t (f\<lparr>pc := L_initcall,
                      initFuncPC := pluginLookup w (h f) (cstring (ppath f @ ''.init''))\<rparr>) s)
               else Some (goto t (f\<lparr>pc := L_materialize,
                      initFuncPC := pluginLookup w (h f) (cstring (ppath f @ ''.init''))\<rparr>) s)))
       \<and> (pc f = L_initcall \<longrightarrow>
            initFuncPC f = pluginLookup w (h f) (cstring (ppath f @ ''.init''))
            \<and> initFuncPC f \<noteq> 0
            \<and> step w t s = Some (goto t (f\<lparr>pc := L_materialize\<rparr>)
                  (s\<lparr>calls := calls s @ [(t, Call_initFunc (initFuncPC f))]\<rparr>)))
       \<and> (pc f = L_materialize \<or> pc f = L_publish \<or> pc f = L_close \<longrightarrow>
            initFuncPC f = pluginLookup w (h f) (cstring (ppath f @ ''.init''))
            \<and> (initFuncPC f \<noteq> 0 \<longrightarrow> (t, Call_initFunc (initFuncPC f)) \<in> set (calls s)))
       \<and> (pc f = L_close \<longrightarrow>
            plugins s (filepath f) = Some (p f) \<and> loaded (heap s (p f)) = Chan_open)"
proof -
  have F: "finv w (plugins s) (heap s) (calls s) t f"
    unfolding assms by (rule run_frame)
  have 1: "pc f = L_initlookup \<or> pc f = L_initcall \<or> pc f = L_materialize \<or> pc f = L_publish \<longrightarrow>
            plugins s (filepath f) = Some (p f) \<and> h f = pluginOpen w (filepath f)
            \<and> pluginpath (heap s (p f)) = ppath f \<and> err (heap s (p f)) = []
            \<and> loaded (heap s (p f)) = Chan_open \<and> syms (heap s (p f)) = Map.empty"
    using F by (auto simp: finv_def own_def loaded_h_def)
  have 2: "pc f = L_initlookup \<longrightarrow>
            step w t s =
              (if pluginLookup w (h f) (cstring (ppath f @ ''.init'')) \<noteq> 0
               then Some (goto t (f\<lparr>pc := L_initcall,
                      initFuncPC := pluginLookup w (h f) (cstring (ppath f @ ''.init''))\<rparr>) s)
               else Some (goto t (f\<lparr>pc := L_materialize,
                      initFuncPC := pluginLookup w (h f) (cstring (ppath f @ ''.init''))\<rparr>) s))"
    using assms(2) by (simp add: step_def Let_def)
  have 3: "pc f = L_initcall \<longrightarrow>
            initFuncPC f = pluginLookup w (h f) (cstring (ppath f @ ''.init''))
            \<and> initFuncPC f \<noteq> 0
            \<and> step w t s = Some (goto t (f\<lparr>pc := L_materialize\<rparr>)
                  (s\<lparr>calls := calls s @ [(t, Call_initFunc (initFuncPC f))]\<rparr>))"
    using F assms(2) by (auto simp: finv_def init_resolved_def step_def Let_def)
  have 4: "pc f = L_materialize \<or> pc f = L_publish \<or> pc f = L_close \<longrightarrow>
            initFuncPC f = pluginLookup w (h f) (cstring (ppath f @ ''.init''))
            \<and> (initFuncPC f \<noteq> 0 \<longrightarrow> (t, Call_initFunc (initFuncPC f)) \<in> set (calls s))"
    using F by (auto simp: finv_def init_resolved_def init_called_def)
  have 5: "pc f = L_close \<longrightarrow>
            plugins s (filepath f) = Some (p f) \<and> loaded (heap s (p f)) = Chan_open"
    using F by (auto simp: finv_def own_def)
  show ?thesis using 1 2 3 4 5 by blast
qed

theorem initializer_order_witness:
  "pc (threads (run demo withinit_sched init_loader) 0) = L_initcall
   \<and> plugins (run demo withinit_sched init_loader) ''C:/withinit'' = Some 0
   \<and> loaded (heap (run demo withinit_sched init_loader) 0) = Chan_open
   \<and> syms (heap (run demo withinit_sched init_loader) 0) = Map.empty
   \<and> initFuncPC (threads (run demo withinit_sched init_loader) 0) = 900
   \<and> calls (run demo (withinit_sched @ [Step 0]) init_loader)
       = [(0, Call_pluginOpen ''C:/withinit''), (0, Call_initFunc 900)]"
proof -
  have e: "filepath (threads (run demo withinit_sched init_loader) 0) = ''C:/withinit''"
    "p (threads (run demo withinit_sched init_loader) 0) = 0"
    "initFuncPC (threads (run demo withinit_sched init_loader) 0) = 900"
    "calls (run demo withinit_sched init_loader) = [(0, Call_pluginOpen ''C:/withinit'')]"
    by (simp_all add: withinit_sched_def run_simps)
  have r: "run demo (withinit_sched @ [Step 0]) init_loader
           = act demo (Step 0) (run demo withinit_sched init_loader)"
    by (simp add: run_def)
  show ?thesis
    using initializer_order [of "run demo withinit_sched init_loader" demo withinit_sched
            "threads (run demo withinit_sched init_loader) 0" 0]
      withinit_at_initcall e
    by (simp add: r goto_def)
qed

text \<open>
  C2. In every state a run can reach, an activation that found a record without error
  and is at the receive \<open><-p.loaded\<close> holds the record of its path. It cannot step
  while the channel is not closed. When the channel is closed it returns that record,
  and then the record has no error, carries the plugin path the runtime reported, and
  its symbols are what the loop builds from the whole symbol map: every declared name
  has an entry.
\<close>

theorem waiter_observes_settled:
  assumes "s = run w sched init_loader" and "f = threads s t" and "pc f = L_wait"
    and "lastmoduleinit w (pluginOpen w (filepath f)) = (pp, tbl, es)"
  shows "plugins s (filepath f) = Some (p f)
       \<and> err (heap s (p f)) = []
       \<and> (loaded (heap s (p f)) \<noteq> Chan_closed \<longrightarrow> step w t s = None)
       \<and> (loaded (heap s (p f)) = Chan_closed \<longrightarrow>
            step w t s = Some (return t f (Ok (p f)) s)
            \<and> pluginpath (heap s (p f)) = pp
            \<and> materialize w (pluginOpen w (filepath f)) pp [] tbl Map.empty
                = Ok (syms (heap s (p f)))
            \<and> (\<forall>(n, v) \<in> set tbl. strip_dot n \<in> dom (syms (heap s (p f)))))"
proof -
  have F: "finv w (plugins s) (heap s) (calls s) t f"
    unfolding assms(1,2) by (rule run_frame)
  then have hit: "plugins s (filepath f) = Some (p f)" and noerr: "err (heap s (p f)) = []"
    using assms(3) by (simp_all add: finv_def)
  have R: "record_inv w (filepath f) (heap s (p f))"
    using hit unfolding assms(1) by (rule run_record)
  have blocked: "loaded (heap s (p f)) \<noteq> Chan_closed \<longrightarrow> step w t s = None"
    using assms(2,3) by (cases "loaded (heap s (p f))") (simp_all add: step_def Let_def)
  have woken: "loaded (heap s (p f)) = Chan_closed \<longrightarrow> step w t s = Some (return t f (Ok (p f)) s)"
    using assms(2,3) by (simp add: step_def Let_def)
  have settled: "pluginpath (heap s (p f)) = pp
       \<and> materialize w (pluginOpen w (filepath f)) pp [] tbl Map.empty = Ok (syms (heap s (p f)))"
    if "loaded (heap s (p f)) = Chan_closed"
    using R that assms(4) noerr by (auto simp: record_inv_def split: if_splits)
  have full: "\<forall>(n, v) \<in> set tbl. strip_dot n \<in> dom (syms (heap s (p f)))"
    if "loaded (heap s (p f)) = Chan_closed"
    using materialize_dom [of w _ pp "[]" tbl Map.empty] settled [OF that] by blast
  show ?thesis using hit noerr blocked woken settled full by blast
qed

lemma wait_facts:
  "pc (threads (run demo wait_sched init_loader) 1) = L_wait"
  "filepath (threads (run demo wait_sched init_loader) 1) = ''C:/math''"
  "p (threads (run demo wait_sched init_loader) 1) = 0"
  "loaded (heap (run demo wait_sched init_loader) 0) = Chan_open"
  "pc (threads (run demo (wait_sched @ finish_sched) init_loader) 1) = L_wait"
  "filepath (threads (run demo (wait_sched @ finish_sched) init_loader) 1) = ''C:/math''"
  "p (threads (run demo (wait_sched @ finish_sched) init_loader) 1) = 0"
  "loaded (heap (run demo (wait_sched @ finish_sched) init_loader) 0) = Chan_closed"
  by (simp_all add: wait_sched_def finish_sched_def run_simps)

theorem waiter_observes_settled_witness:
  "step demo 1 (run demo wait_sched init_loader) = None
   \<and> ret (threads (run demo (wait_sched @ finish_sched @ [Step 1]) init_loader) 1) = Ok 0
   \<and> ''Add'' \<in> dom (syms (heap (run demo (wait_sched @ finish_sched) init_loader) 0))
   \<and> ''Pi'' \<in> dom (syms (heap (run demo (wait_sched @ finish_sched) init_loader) 0))"
proof -
  have r: "run demo (wait_sched @ finish_sched @ [Step 1]) init_loader
           = act demo (Step 1) (run demo (wait_sched @ finish_sched) init_loader)"
    by (simp add: run_def)
  have l: "lastmoduleinit demo (pluginOpen demo ''C:/math'')
           = (''math'', [(''.Add'', Iface 7 Nil_word), (''Pi'', Iface 8 Nil_word)], [])"
    by (simp add: demo_simps)
  note w1 = waiter_observes_settled [of "run demo wait_sched init_loader" demo wait_sched
            "threads (run demo wait_sched init_loader) 1" 1 "''math''"
            "[(''.Add'', Iface 7 Nil_word), (''Pi'', Iface 8 Nil_word)]" "[]"]
  note w2 = waiter_observes_settled [of "run demo (wait_sched @ finish_sched) init_loader" demo
            "wait_sched @ finish_sched"
            "threads (run demo (wait_sched @ finish_sched) init_loader) 1" 1 "''math''"
            "[(''.Add'', Iface 7 Nil_word), (''Pi'', Iface 8 Nil_word)]" "[]"]
  have a: "step demo 1 (run demo wait_sched init_loader) = None"
    using w1 wait_facts(1-4) l by simp
  have b: "step demo 1 (run demo (wait_sched @ finish_sched) init_loader)
           = Some (return 1 (threads (run demo (wait_sched @ finish_sched) init_loader) 1) (Ok 0)
                    (run demo (wait_sched @ finish_sched) init_loader))"
    and c: "''Add'' \<in> dom (syms (heap (run demo (wait_sched @ finish_sched) init_loader) 0))"
           "''Pi'' \<in> dom (syms (heap (run demo (wait_sched @ finish_sched) init_loader) 0))"
    using w2 wait_facts(5-8) l by (simp_all add: strip_dot_def)
  have "ret (threads (run demo (wait_sched @ finish_sched @ [Step 1]) init_loader) 1) = Ok 0"
    unfolding r using b by (simp add: return_def goto_def)
  then show ?thesis using a c by simp
qed

text \<open>
  C3. Let the symbol map the runtime reports for the module at a path contain a name
  that \<open>pluginLookup\<close> cannot resolve. In every state a run can reach, the record of
  that path has no symbols, its channel is not closed, and \<open>lookup\<close> fails on it for
  every name; no call for that path has returned a plugin; and the call that loaded the
  module, when it reaches the loop, returns the error \<open>could not find symbol\<close> for a
  name that does not resolve, provided no declared name is empty (on an empty name
  \<open>symName[0]\<close> panics).
\<close>

theorem no_partial_publication:
  assumes "s = run w sched init_loader"
    and "plugins s fp = Some q"
    and "lastmoduleinit w (pluginOpen w fp) = (pp, tbl, es)"
    and "(n0, v0) \<in> set tbl"
    and "pluginLookup w (pluginOpen w fp) (cstring (pp @ ''.'' @ strip_dot n0)) = 0"
  shows "syms (heap s q) = Map.empty
       \<and> loaded (heap s q) \<noteq> Chan_closed
       \<and> (\<forall>nm. lookup (heap s q) nm
                 = Inl (''plugin: symbol '' @ nm @ '' not found in plugin '' @ pp))
       \<and> (\<forall>t. filepath (threads s t) = fp \<and> pc (threads s t) = L_done
                \<longrightarrow> (\<forall>q'. ret (threads s t) \<noteq> Ok q'))
       \<and> (\<forall>t. filepath (threads s t) = fp \<and> pc (threads s t) = L_materialize
                \<and> (\<forall>(n, v) \<in> set tbl. n \<noteq> [])
                \<longrightarrow> (\<exists>n v. (n, v) \<in> set tbl
                      \<and> pluginLookup w (pluginOpen w fp) (cstring (pp @ ''.'' @ strip_dot n)) = 0
                      \<and> step w t s = Some (return t (threads s t)
                            (Error (open_prefix (name (threads s t)) @ ''could not find symbol ''
                                    @ strip_dot n @ '': '')) s)))"
proof -
  have R: "record_inv w fp (heap s q)"
    using assms(2) unfolding assms(1) by (rule run_record)
  have nok: "materialize w (pluginOpen w fp) pp nm tbl m \<noteq> Ok m'" for nm m m'
    using materialize_missing [OF assms(4,5)] .
  have 1: "syms (heap s q) = Map.empty" and 2: "loaded (heap s q) \<noteq> Chan_closed"
    and pp: "pluginpath (heap s q) = pp"
    using R assms(3) nok by (auto simp: record_inv_def split: if_splits)
  have 3: "\<forall>nm. lookup (heap s q) nm
                 = Inl (''plugin: symbol '' @ nm @ '' not found in plugin '' @ pp)"
    by (simp add: lookup_def 1 pp)
  have 4: "\<forall>q'. ret (threads s t) \<noteq> Ok q'"
    if "filepath (threads s t) = fp \<and> pc (threads s t) = L_done" for t
  proof (intro allI notI)
    fix q' assume "ret (threads s t) = Ok q'"
    then have "plugins s fp = Some q' \<and> loaded (heap s q') = Chan_closed"
      using run_frame [of w sched t] that by (simp add: finv_def assms(1))
    then show False using assms(2) 2 by simp
  qed
  have 5: "\<exists>n v. (n, v) \<in> set tbl
             \<and> pluginLookup w (pluginOpen w fp) (cstring (pp @ ''.'' @ strip_dot n)) = 0
             \<and> step w t s = Some (return t (threads s t)
                   (Error (open_prefix (name (threads s t)) @ ''could not find symbol ''
                           @ strip_dot n @ '': '')) s)"
    if a: "filepath (threads s t) = fp \<and> pc (threads s t) = L_materialize
        \<and> (\<forall>(n, v) \<in> set tbl. n \<noteq> [])" for t
  proof -
    have "own w (plugins s) (heap s) (threads s t)"
      using run_frame [of w sched t] a by (simp add: finv_def assms(1))
    then have hh: "h (threads s t) = pluginOpen w fp" and tb: "ppath (threads s t) = pp"
      "symtab (threads s t) = tbl"
      using a assms(3) by (auto simp: own_def loaded_h_def inited_def)
    from a have ne: "\<forall>(n, v) \<in> set tbl. n \<noteq> []" by simp
    from materialize_error [OF assms(4,5) ne, of "name (threads s t)" Map.empty]
    obtain n v where nv: "(n, v) \<in> set tbl"
      "pluginLookup w (pluginOpen w fp) (cstring (pp @ ''.'' @ strip_dot n)) = 0"
      "materialize w (pluginOpen w fp) pp (name (threads s t)) tbl Map.empty
         = Error (open_prefix (name (threads s t)) @ ''could not find symbol ''
                  @ strip_dot n @ '': '')"
      by blast
    have "step w t s = Some (return t (threads s t)
                   (Error (open_prefix (name (threads s t)) @ ''could not find symbol ''
                           @ strip_dot n @ '': '')) s)"
      using a nv(3) by (simp add: step_def Let_def hh tb)
    then show ?thesis using nv(1,2) by blast
  qed
  show ?thesis using 1 2 3 4 5 by blast
qed

lemma broken_facts:
  "plugins (run demo (broken_sched @ [Step 0]) init_loader) ''C:/broken'' = Some 0"
  "pc (threads (run demo (broken_sched @ [Step 0]) init_loader) 0) = L_done"
  "ret (threads (run demo (broken_sched @ [Step 0]) init_loader) 0)
     = Error (open_prefix ''broken'' @ ''could not find symbol Y: '')"
  by (simp_all add: broken_sched_def run_simps cErr_def)

theorem no_partial_publication_witness:
  "ret (threads (run demo (broken_sched @ [Step 0]) init_loader) 0)
     = Error (open_prefix ''broken'' @ ''could not find symbol Y: '')
   \<and> lookup (heap (run demo (broken_sched @ [Step 0]) init_loader) 0) ''X''
     = Inl ''plugin: symbol X not found in plugin broken''
   \<and> loaded (heap (run demo (broken_sched @ [Step 0]) init_loader) 0) \<noteq> Chan_closed"
proof -
  have l: "lastmoduleinit demo (pluginOpen demo ''C:/broken'')
           = (''broken'', [(''X'', Iface 9 Nil_word), (''.Y'', Iface 10 Nil_word)], [])"
    and m: "pluginLookup demo (pluginOpen demo ''C:/broken'')
              (cstring (''broken'' @ ''.'' @ strip_dot ''.Y'')) = 0"
    by (simp_all add: demo_simps strip_dot_def)
  from no_partial_publication [OF refl broken_facts(1) l _ m, of "Iface 10 Nil_word"]
  show ?thesis using broken_facts(3) by simp
qed

text \<open>
  C1, as amended. In every state of every interleaving: a path whose native load
  succeeds has at most one \<open>pluginOpen\<close> call in the log, and exactly one once it has
  a record; a path whose native load is rejected never gets a record (each call that
  finds none calls \<open>pluginOpen\<close> again). A call that returned a plugin returned the
  record of its path, so two such calls for one path returned the same pointer. A call
  that found the record of its path Failed returns that record's \<open>err\<close>, annotated
  \<open>(previous failure)\<close>.
\<close>

theorem one_successful_load:
  assumes "s = run w sched init_loader"
  shows "(pluginOpen w fp \<noteq> 0 \<longrightarrow> count_loads fp (calls s) \<le> 1)
       \<and> (plugins s fp \<noteq> None \<longrightarrow> pluginOpen w fp \<noteq> 0 \<and> count_loads fp (calls s) = 1)
       \<and> (pc (threads s t) = L_done \<and> ret (threads s t) = Ok q
            \<longrightarrow> plugins s (filepath (threads s t)) = Some q)
       \<and> (pc (threads s t) = L_done \<and> ret (threads s t) = Ok q
            \<and> pc (threads s u) = L_done \<and> ret (threads s u) = Ok q'
            \<and> filepath (threads s t) = filepath (threads s u) \<longrightarrow> q = q')
       \<and> (pc (threads s t) = L_errcheck \<and> err (heap s (p (threads s t))) \<noteq> [] \<longrightarrow>
            plugins s (filepath (threads s t)) = Some (p (threads s t))
            \<and> step w t s = Some (return t (threads s t)
                 (Error (open_prefix (name (threads s t)) @ err (heap s (p (threads s t)))
                         @ '' (previous failure)'')) s))"
proof -
  have I: "loader_inv w s" unfolding assms by (rule loader_inv_run)
  have L: "pluginOpen w fp \<noteq> 0 \<Longrightarrow>
       count_loads fp (calls s) = (if plugins s fp \<noteq> None \<or> loading s fp then 1 else 0)"
    using I by (simp add: loader_inv_def log_inv_def)
  have 1: "pluginOpen w fp \<noteq> 0 \<longrightarrow> count_loads fp (calls s) \<le> 1"
    using L by simp
  have 2: "plugins s fp \<noteq> None \<longrightarrow> pluginOpen w fp \<noteq> 0 \<and> count_loads fp (calls s) = 1"
  proof
    assume "plugins s fp \<noteq> None"
    then obtain r where r: "plugins s fp = Some r" by auto
    then have "record_inv w fp (heap s r)" unfolding assms by (rule run_record)
    then have "pluginOpen w fp \<noteq> 0" by (auto simp: record_inv_def split: prod.splits)
    then show "pluginOpen w fp \<noteq> 0 \<and> count_loads fp (calls s) = 1" using L r by simp
  qed
  have D: "pc (threads s a) = L_done \<and> ret (threads s a) = Ok r
           \<longrightarrow> plugins s (filepath (threads s a)) = Some r" for a r
    using run_frame [of w sched a] by (auto simp: finv_def assms)
  have 4: "pc (threads s t) = L_done \<and> ret (threads s t) = Ok q
            \<and> pc (threads s u) = L_done \<and> ret (threads s u) = Ok q'
            \<and> filepath (threads s t) = filepath (threads s u) \<longrightarrow> q = q'"
    using D [of t q] D [of u q'] by auto
  have 5: "pc (threads s t) = L_errcheck \<and> err (heap s (p (threads s t))) \<noteq> [] \<longrightarrow>
            plugins s (filepath (threads s t)) = Some (p (threads s t))
            \<and> step w t s = Some (return t (threads s t)
                 (Error (open_prefix (name (threads s t)) @ err (heap s (p (threads s t)))
                         @ '' (previous failure)'')) s)"
    using run_frame [of w sched t] by (auto simp: finv_def assms step_def Let_def)
  show ?thesis using 1 2 D [of t q] 4 5 by blast
qed

lemma both_math_facts:
  "pc (threads (run demo (wait_sched @ finish_sched @ [Step 1]) init_loader) 0) = L_done"
  "pc (threads (run demo (wait_sched @ finish_sched @ [Step 1]) init_loader) 1) = L_done"
  "ret (threads (run demo (wait_sched @ finish_sched @ [Step 1]) init_loader) 0) = Ok 0"
  "ret (threads (run demo (wait_sched @ finish_sched @ [Step 1]) init_loader) 1) = Ok 0"
  "plugins (run demo (wait_sched @ finish_sched @ [Step 1]) init_loader) ''C:/math'' = Some 0"
  by (simp_all add: wait_sched_def finish_sched_def run_simps)

theorem one_successful_load_witness:
  "count_loads ''C:/math'' (calls (run demo (wait_sched @ finish_sched @ [Step 1]) init_loader)) = 1
   \<and> ret (threads (run demo (wait_sched @ finish_sched @ [Step 1]) init_loader) 0) = Ok 0
   \<and> ret (threads (run demo (wait_sched @ finish_sched @ [Step 1]) init_loader) 1) = Ok 0"
  using one_successful_load [OF refl, of demo "''C:/math''" "wait_sched @ finish_sched @ [Step 1]"
          0 0 1 0]
    both_math_facts
  by simp

theorem load_invoked_twice_counterexample:
  "pc (threads (run demo twice_sched init_loader) 0) = L_done
   \<and> pc (threads (run demo twice_sched init_loader) 1) = L_done
   \<and> filepath (threads (run demo twice_sched init_loader) 0) = ''C:/notdll''
   \<and> filepath (threads (run demo twice_sched init_loader) 1) = ''C:/notdll''
   \<and> calls (run demo twice_sched init_loader)
       = [(0, Call_pluginOpen ''C:/notdll''), (1, Call_pluginOpen ''C:/notdll'')]
   \<and> count_loads ''C:/notdll'' (calls (run demo twice_sched init_loader)) = 2"
  by (simp add: twice_sched_def run_simps count_loads_def)

end
